theory Spec2Isabelle
  imports Main
begin

section \<open>Go strings and the library functions the converter calls\<close>

text \<open>
  A Go \<^verbatim>\<open>string\<close> is a sequence of bytes, and \<^verbatim>\<open>len\<close>, slicing and the functions of
  package \<^verbatim>\<open>strings\<close> used by the converter work on those bytes. The type \<^typ>\<open>string\<close>
  (a list of 8-bit characters) is that sequence.
\<close>

definition byte :: "char \<Rightarrow> nat" where
  "byte c = of_char c"

text \<open>\<^verbatim>\<open>strings.HasPrefix\<close>: \<^verbatim>\<open>len(s) >= len(prefix) && s[:len(prefix)] == prefix\<close>.\<close>

definition HasPrefix :: "string \<Rightarrow> string \<Rightarrow> bool" where
  "HasPrefix s pre = (length pre \<le> length s \<and> take (length pre) s = pre)"

text \<open>\<^verbatim>\<open>strings.HasSuffix\<close>: \<^verbatim>\<open>len(s) >= len(suffix) && s[len(s)-len(suffix):] == suffix\<close>.\<close>

definition HasSuffix :: "string \<Rightarrow> string \<Rightarrow> bool" where
  "HasSuffix s suf = (length suf \<le> length s \<and> drop (length s - length suf) s = suf)"

text \<open>\<^verbatim>\<open>strings.TrimSuffix\<close>: \<^verbatim>\<open>s[:len(s)-len(suffix)]\<close> when \<^verbatim>\<open>HasSuffix\<close>, else \<^verbatim>\<open>s\<close>.\<close>

definition TrimSuffix :: "string \<Rightarrow> string \<Rightarrow> string" where
  "TrimSuffix s suf = (if HasSuffix s suf then take (length s - length suf) s else s)"

text \<open>
  \<^verbatim>\<open>strings.Index\<close>: the byte offset of the first occurrence of \<^verbatim>\<open>substr\<close> in \<^verbatim>\<open>s\<close>;
  Go's \<^verbatim>\<open>-1\<close> is \<^term>\<open>None\<close>.
\<close>

fun Index :: "string \<Rightarrow> string \<Rightarrow> nat option" where
  "Index [] sub = (if sub = [] then Some 0 else None)"
| "Index (c # cs) sub =
     (if HasPrefix (c # cs) sub then Some 0
      else (case Index cs sub of None \<Rightarrow> None | Some j \<Rightarrow> Some (Suc j)))"

text \<open>\<^verbatim>\<open>strings.Contains\<close>: \<^verbatim>\<open>Index(s, substr) >= 0\<close>.\<close>

definition Contains :: "string \<Rightarrow> string \<Rightarrow> bool" where
  "Contains s sub = (Index s sub \<noteq> None)"

text \<open>
  \<^verbatim>\<open>strings.Replace(s, old, new, n)\<close> for a non-empty \<^verbatim>\<open>old\<close>: the first \<^verbatim>\<open>n\<close>
  non-overlapping occurrences of \<^verbatim>\<open>old\<close>, found left to right with \<^verbatim>\<open>Index\<close>, are
  replaced by \<^verbatim>\<open>new\<close>; a negative \<^verbatim>\<open>n\<close> puts no limit on their number. Every call in
  the converter passes a non-empty literal as \<^verbatim>\<open>old\<close>; for an empty \<^verbatim>\<open>old\<close> Go inserts
  \<^verbatim>\<open>new\<close> between UTF-8 sequences, which this model leaves out (it returns \<^verbatim>\<open>s\<close>).
\<close>

function Replace :: "string \<Rightarrow> string \<Rightarrow> string \<Rightarrow> int \<Rightarrow> string" where
  "Replace s old new n =
     (if old = [] \<or> old = new \<or> n = 0 then s
      else (case Index s old of
              None \<Rightarrow> s
            | Some j \<Rightarrow> take j s @ new @ Replace (drop (j + length old) s) old new (n - 1)))"
  by pat_completeness auto

lemma Index_Some_bound: "Index s sub = Some j \<Longrightarrow> j + length sub \<le> length s"
proof (induction s arbitrary: j)
  case Nil
  then show ?case by (simp split: if_splits)
next
  case (Cons c cs)
  then show ?case
    by (auto simp: HasPrefix_def split: if_splits option.splits)
qed

termination Replace
proof (relation "measure (\<lambda>(s, old, new, n). length s)")
  show "wf (measure (\<lambda>(s, old, new, n). length s))" by simp
next
  fix s old new :: string and n :: int and j :: nat
  assume "\<not> (old = [] \<or> old = new \<or> n = 0)" and "Index s old = Some j"
  then have "old \<noteq> []" and "j + length old \<le> length s"
    by (auto dest: Index_Some_bound)
  then show "((drop (j + length old) s, old, new, n - 1), (s, old, new, n))
      \<in> measure (\<lambda>(s, old, new, n). length s)"
    by (cases old) auto
qed
declare Replace.simps [simp del]

text \<open>\<^verbatim>\<open>strings.ReplaceAll(s, old, new)\<close> is \<^verbatim>\<open>Replace(s, old, new, -1)\<close>.\<close>

definition ReplaceAll :: "string \<Rightarrow> string \<Rightarrow> string \<Rightarrow> string" where
  "ReplaceAll s old new = Replace s old new (- 1)"

text \<open>
  \<^verbatim>\<open>strings.ToLower\<close>. Go first scans the bytes: a string of ASCII bytes only
  (all below \<^verbatim>\<open>utf8.RuneSelf = 0x80\<close>) is returned with each of \<^verbatim>\<open>'A'..'Z'\<close> moved up by
  \<^verbatim>\<open>'a' - 'A'\<close>; any other string goes through \<^verbatim>\<open>Map(unicode.ToLower, s)\<close>, which
  depends on the Unicode tables of the Go distribution and is the parameter \<open>ul\<close> here.
\<close>

definition isASCII :: "string \<Rightarrow> bool" where
  "isASCII s = list_all (\<lambda>c. byte c < 128) s"

definition lowerByte :: "char \<Rightarrow> char" where
  "lowerByte c = (if 65 \<le> byte c \<and> byte c \<le> 90 then char_of (byte c + 32) else c)"

definition ToLower :: "(string \<Rightarrow> string) \<Rightarrow> string \<Rightarrow> string" where
  "ToLower ul s = (if isASCII s then map lowerByte s else ul s)"

subsection \<open>What the library functions compute\<close>

text \<open>
  \<^verbatim>\<open>HasPrefix\<close>, \<^verbatim>\<open>HasSuffix\<close> and \<^verbatim>\<open>Contains\<close> hold exactly when the string splits
  around the pattern, \<^verbatim>\<open>Index\<close> finds the leftmost split, and a single \<^verbatim>\<open>Replace\<close>
  rewrites the leftmost occurrence.
\<close>

lemma HasPrefix_append: "HasPrefix (sub @ q) sub"
  by (simp add: HasPrefix_def)

lemma HasPrefix_iff: "HasPrefix s pre \<longleftrightarrow> (\<exists>q. s = pre @ q)"
proof
  assume "HasPrefix s pre"
  then have "s = pre @ drop (length pre) s"
    by (metis HasPrefix_def append_take_drop_id)
  then show "\<exists>q. s = pre @ q" ..
next
  assume "\<exists>q. s = pre @ q"
  then show "HasPrefix s pre" by (auto simp: HasPrefix_def)
qed

lemma HasSuffix_iff: "HasSuffix s suf \<longleftrightarrow> (\<exists>p. s = p @ suf)"
proof
  assume "HasSuffix s suf"
  then have "s = take (length s - length suf) s @ suf"
    by (metis HasSuffix_def append_take_drop_id)
  then show "\<exists>p. s = p @ suf" ..
next
  assume "\<exists>p. s = p @ suf"
  then show "HasSuffix s suf" by (auto simp: HasSuffix_def)
qed

lemma TrimSuffix_append: "TrimSuffix (p @ suf) suf = p"
  by (simp add: TrimSuffix_def HasSuffix_def)

lemma Index_Some_split:
  "Index s sub = Some j \<Longrightarrow> s = take j s @ sub @ drop (j + length sub) s"
proof (induction s arbitrary: j)
  case Nil
  then show ?case by (simp split: if_splits)
next
  case (Cons c cs)
  show ?case
  proof (cases "HasPrefix (c # cs) sub")
    case True
    with Cons.prems have "j = 0" by simp
    with True show ?thesis
      by (metis HasPrefix_def add_0 append_Nil append_take_drop_id take0)
  next
    case False
    with Cons.prems obtain k where k: "Index cs sub = Some k" "j = Suc k"
      by (auto split: option.splits)
    from Cons.IH [OF k(1)] k(2) show ?thesis by simp
  qed
qed

lemma Index_None_iff: "Index s sub = None \<longleftrightarrow> (\<forall>a b. s \<noteq> a @ sub @ b)"
proof (induction s)
  case Nil
  then show ?case by auto
next
  case (Cons c cs)
  show ?case
  proof (cases "HasPrefix (c # cs) sub")
    case True
    then obtain q where "c # cs = sub @ q" by (auto simp: HasPrefix_iff)
    then have "c # cs = [] @ sub @ q" by simp
    with True show ?thesis by (metis Index.simps(2) option.distinct(1))
  next
    case False
    have "(\<exists>a b. c # cs = a @ sub @ b) \<longleftrightarrow> (\<exists>a b. cs = a @ sub @ b)"
    proof
      assume "\<exists>a b. c # cs = a @ sub @ b"
      then obtain a b where ab: "c # cs = a @ sub @ b" by blast
      with False have "a \<noteq> []" by (auto simp: HasPrefix_iff)
      then obtain a' where "a = c # a'" using ab by (cases a) auto
      with ab show "\<exists>a b. cs = a @ sub @ b" by auto
    next
      assume "\<exists>a b. cs = a @ sub @ b"
      then obtain a b where "cs = a @ sub @ b" by blast
      then have "c # cs = (c # a) @ sub @ b" by simp
      then show "\<exists>a b. c # cs = a @ sub @ b" by blast
    qed
    with False Cons.IH show ?thesis by (auto split: option.splits)
  qed
qed

lemma Contains_iff: "Contains s sub \<longleftrightarrow> (\<exists>a b. s = a @ sub @ b)"
  by (simp add: Contains_def Index_None_iff)

lemma Contains_Cons: "Contains s sub \<Longrightarrow> Contains (c # s) sub"
  by (metis Contains_iff append_Cons)

lemma Index_first:
  assumes "sub \<noteq> []" and "\<not> Contains (p @ butlast sub) sub"
  shows "Index (p @ sub @ q) sub = Some (length p)"
  using assms(2)
proof (induction p)
  case Nil
  show ?case
  proof (cases "sub @ q")
    case Nil
    with assms(1) show ?thesis by simp
  next
    case (Cons c cs)
    then show ?thesis using HasPrefix_append [of sub q] by simp
  qed
next
  case (Cons c p)
  have "\<not> HasPrefix (c # p @ sub @ q) sub"
  proof
    assume "HasPrefix (c # p @ sub @ q) sub"
    then obtain r where r: "c # p @ sub @ q = sub @ r" by (auto simp: HasPrefix_iff)
    have "sub = butlast sub @ [last sub]" using assms(1) by simp
    then have "c # p @ butlast sub @ last sub # q = sub @ r"
      using r by (metis append_Cons append_Nil append_assoc)
    moreover have "length sub \<le> length (c # p @ butlast sub)" by simp
    ultimately have "take (length sub) (c # p @ butlast sub) = sub"
      by (metis append_Cons append_assoc append_eq_conv_conj take_all_iff take_append order_refl
          append_take_drop_id)
    then have "c # p @ butlast sub = sub @ drop (length sub) (c # p @ butlast sub)"
      by (metis append_take_drop_id)
    then have "Contains ((c # p) @ butlast sub) sub"
      by (metis Contains_iff append_Cons append_Nil)
    with Cons.prems show False by simp
  qed
  moreover have "\<not> Contains (p @ butlast sub) sub"
    using Cons.prems Contains_Cons by fastforce
  ultimately show ?case using Cons.IH by simp
qed

lemma Replace_once:
  assumes "sub \<noteq> []" and "sub \<noteq> new" and "\<not> Contains (p @ butlast sub) sub"
  shows "Replace (p @ sub @ q) sub new 1 = p @ new @ q"
proof -
  have "Index (p @ sub @ q) sub = Some (length p)"
    using assms(1,3) by (rule Index_first)
  then show ?thesis
    using assms(1,2) by (simp add: Replace.simps [of "p @ sub @ q"] Replace.simps [of q])
qed

text \<open>
  Replacing a one-byte pattern by another byte without a limit is a bytewise map.
\<close>

lemma Replace_single_skip:
  assumes "x \<noteq> c" and "n \<noteq> 0" and "c \<noteq> d"
  shows "Replace (x # xs) [c] [d] n = x # Replace xs [c] [d] n"
proof (cases "Index xs [c]")
  case None
  with assms show ?thesis
    by (simp add: Replace.simps [of "x # xs"] Replace.simps [of xs] HasPrefix_def)
next
  case (Some j)
  with assms show ?thesis
    by (simp add: Replace.simps [of "x # xs"] Replace.simps [of xs] HasPrefix_def)
qed

lemma Replace_single_hit:
  assumes "n \<noteq> 0" and "c \<noteq> d"
  shows "Replace (c # xs) [c] [d] n = d # Replace xs [c] [d] (n - 1)"
  using assms by (simp add: Replace.simps [of "c # xs"] HasPrefix_def)

lemma Replace_single_map:
  "n < 0 \<Longrightarrow> c \<noteq> d \<Longrightarrow> Replace s [c] [d] n = map (\<lambda>x. if x = c then d else x) s"
proof (induction s arbitrary: n)
  case Nil
  then show ?case by (simp add: Replace.simps [of "[]"])
next
  case (Cons x xs)
  show ?case
  proof (cases "x = c")
    case True
    from Cons.prems have "n - 1 < 0" by simp
    with Cons.IH Cons.prems True show ?thesis
      by (simp add: Replace_single_hit)
  next
    case False
    with Cons show ?thesis by (simp add: Replace_single_skip)
  qed
qed

lemma ReplaceAll_single:
  "c \<noteq> d \<Longrightarrow> ReplaceAll s [c] [d] = map (\<lambda>x. if x = c then d else x) s"
  by (simp add: ReplaceAll_def Replace_single_map)

text \<open>
  On ASCII strings \<^verbatim>\<open>ToLower\<close> is idempotent, whatever the Unicode tables say.
\<close>

lemma byte_lowerByte:
  "byte (lowerByte c) = (if 65 \<le> byte c \<and> byte c \<le> 90 then byte c + 32 else byte c)"
  by (simp add: lowerByte_def byte_def)

lemma lowerByte_idem: "lowerByte (lowerByte c) = lowerByte c"
proof (cases "65 \<le> byte c \<and> byte c \<le> 90")
  case True
  then have "\<not> (65 \<le> byte (lowerByte c) \<and> byte (lowerByte c) \<le> 90)"
    by (simp add: byte_lowerByte)
  then show ?thesis by (subst lowerByte_def) (simp only: if_False)
next
  case False
  then have "lowerByte c = c" by (simp only: lowerByte_def if_False)
  then show ?thesis by simp
qed

lemma isASCII_lower: "isASCII s \<Longrightarrow> isASCII (map lowerByte s)"
  by (induction s) (auto simp: isASCII_def byte_lowerByte)

lemma ToLower_ascii_idem: "isASCII s \<Longrightarrow> ToLower ul (ToLower ul s) = ToLower ul s"
  by (simp add: ToLower_def isASCII_lower lowerByte_idem)

section \<open>The mode normalizer and the filename sanitizer\<close>

text \<open>\<^verbatim>\<open>modeToBetter\<close> (main.go, lines 169-191).\<close>

definition modeToBetter :: "(string \<Rightarrow> string) \<Rightarrow> string \<Rightarrow> string" where
  "modeToBetter ul mode0 =
     (let mode = ToLower ul mode0 in
      if HasSuffix mode ''major'' then TrimSuffix mode ''major''
      else if HasSuffix mode ''minor'' then TrimSuffix mode ''minor'' @ ''m''
      else if Contains mode ''mixolydian'' then Replace mode ''mixolydian'' '' mix'' 1
      else if Contains mode ''dorian'' then Replace mode ''dorian'' '' dor'' 1
      else if Contains mode ''phrygian'' then Replace mode ''phrygian'' '' phr'' 1
      else if Contains mode ''lydian'' then Replace mode ''lydian'' '' lyd'' 1
      else if Contains mode ''locrian'' then Replace mode ''locrian'' '' loc'' 1
      else mode)"

text \<open>
  \<^verbatim>\<open>sanitizeFileName\<close> (main.go, lines 151-166): the loop over \<^verbatim>\<open>illegalChars\<close> is a
  left fold of \<^verbatim>\<open>ReplaceAll\<close>, and \<^verbatim>\<open>result[:50]\<close> keeps the first 50 bytes.
\<close>

definition illegalChars :: "string list" where
  "illegalChars = [''/'', [CHR 0x5C], '':'', ''*'', ''?'', [CHR 0x22], ''<'', ''>'', ''|'']"

definition sanitizeFileName :: "string \<Rightarrow> string" where
  "sanitizeFileName name =
     (let result = fold (\<lambda>char result. ReplaceAll result char ''_'') illegalChars name in
      if length result > 50 then take 50 result else result)"

subsection \<open>Notions the properties are stated with\<close>

text \<open>
  \<open>first_at m p kw q\<close>: the string \<open>m\<close> is \<open>p\<close>, then \<open>kw\<close>, then \<open>q\<close>, and no
  occurrence of \<open>kw\<close> starts earlier: this is the first occurrence of \<open>kw\<close> in \<open>m\<close>.
\<close>

definition first_at :: "string \<Rightarrow> string \<Rightarrow> string \<Rightarrow> string \<Rightarrow> bool" where
  "first_at m p kw q = (m = p @ kw @ q \<and> \<not> Contains (p @ butlast kw) kw)"

text \<open>
  \<open>no_earlier_rule m kws\<close>: neither suffix rule applies to \<open>m\<close>, and none of the
  keywords \<open>kws\<close> (those of the rules tried before the current one) occurs in it.
\<close>

definition no_earlier_rule :: "string \<Rightarrow> string list \<Rightarrow> bool" where
  "no_earlier_rule m kws =
     (\<not> HasSuffix m ''major'' \<and> \<not> HasSuffix m ''minor'' \<and> list_all (\<lambda>kw. \<not> Contains m kw) kws)"

text \<open>
  \<open>underscored\<close> is what the specification asks of the sanitizer for one byte: each of
  the nine characters \<^verbatim>\<open>/ \ : * ? " < > |\<close> becomes an underscore.
\<close>

definition underscored :: "char \<Rightarrow> char" where
  "underscored c =
     (if c \<in> {CHR ''/'', CHR 0x5C, CHR '':'', CHR ''*'', CHR ''?'', CHR 0x22, CHR ''<'', CHR ''>'',
               CHR ''|''}
      then CHR ''_'' else c)"

text \<open>
  The specification counts characters. In UTF-8 text every character is one lead byte
  followed by continuation bytes (\<^verbatim>\<open>0x80\<close> to \<^verbatim>\<open>0xBF\<close>), so the characters of a string are
  counted by its bytes that are not continuation bytes. \<open>e_acute_51\<close> is a title of 51
  two-byte characters (U+00E9, bytes \<^verbatim>\<open>C3 A9\<close>).
\<close>

definition isContinuation :: "char \<Rightarrow> bool" where
  "isContinuation c = (128 \<le> byte c \<and> byte c < 192)"

definition charCount :: "string \<Rightarrow> nat" where
  "charCount s = length (filter (\<lambda>c. \<not> isContinuation c) s)"

definition e_acute_51 :: string where
  "e_acute_51 = concat (replicate 51 [CHR 0xC3, CHR 0xA9])"

subsection \<open>Helper lemmas\<close>

lemma Replace_first_at:
  "first_at m p kw q \<Longrightarrow> kw \<noteq> [] \<Longrightarrow> kw \<noteq> new \<Longrightarrow> Replace m kw new 1 = p @ new @ q"
  by (simp add: first_at_def Replace_once)

lemma first_at_Contains: "first_at m p kw q \<Longrightarrow> Contains m kw"
  by (auto simp: first_at_def Contains_iff)

lemma fold_ReplaceAll_illegalChars:
  "fold (\<lambda>char result. ReplaceAll result char ''_'') illegalChars name = map underscored name"
  by (simp add: illegalChars_def ReplaceAll_single underscored_def)

lemma sanitizeFileName_eq: "sanitizeFileName name = take 50 (map underscored name)"
  by (simp add: sanitizeFileName_def fold_ReplaceAll_illegalChars Let_def)

section \<open>Properties of the mode normalizer\<close>

text \<open>
  C1. For every mode string the normalizer applies its rules in order, the first match
  winning, to the lowercased input \<open>ToLower ul mode\<close>: a final \<^verbatim>\<open>major\<close> is stripped;
  else a final \<^verbatim>\<open>minor\<close> is stripped and \<^verbatim>\<open>m\<close> appended; else the first occurrence of
  \<^verbatim>\<open>mixolydian\<close>, \<^verbatim>\<open>dorian\<close>, \<^verbatim>\<open>phrygian\<close>, \<^verbatim>\<open>lydian\<close>, \<^verbatim>\<open>locrian\<close> (checked in
  that order) is replaced by \<^verbatim>\<open> mix\<close>, \<^verbatim>\<open> dor\<close>, \<^verbatim>\<open> phr\<close>, \<^verbatim>\<open> lyd\<close>, \<^verbatim>\<open> loc\<close>; else the
  lowercased input is returned unchanged. In particular \<^verbatim>\<open>Gmajor\<close> gives \<^verbatim>\<open>g\<close>,
  \<^verbatim>\<open>Aminor\<close> gives \<^verbatim>\<open>am\<close> and \<^verbatim>\<open>Dmixolydian\<close> gives \<^verbatim>\<open>d mix\<close>.
\<close>

theorem modeToBetter_rules:
  fixes ul :: "string \<Rightarrow> string" and mode p q :: string
  shows
  "(ToLower ul mode = p @ ''major'' \<longrightarrow> modeToBetter ul mode = p) \<and>
   (\<not> HasSuffix (ToLower ul mode) ''major'' \<and> ToLower ul mode = p @ ''minor''
      \<longrightarrow> modeToBetter ul mode = p @ ''m'') \<and>
   (no_earlier_rule (ToLower ul mode) [] \<and>
    first_at (ToLower ul mode) p ''mixolydian'' q
      \<longrightarrow> modeToBetter ul mode = p @ '' mix'' @ q) \<and>
   (no_earlier_rule (ToLower ul mode) [''mixolydian''] \<and>
    first_at (ToLower ul mode) p ''dorian'' q
      \<longrightarrow> modeToBetter ul mode = p @ '' dor'' @ q) \<and>
   (no_earlier_rule (ToLower ul mode) [''mixolydian'', ''dorian''] \<and>
    first_at (ToLower ul mode) p ''phrygian'' q
      \<longrightarrow> modeToBetter ul mode = p @ '' phr'' @ q) \<and>
   (no_earlier_rule (ToLower ul mode) [''mixolydian'', ''dorian'', ''phrygian''] \<and>
    first_at (ToLower ul mode) p ''lydian'' q
      \<longrightarrow> modeToBetter ul mode = p @ '' lyd'' @ q) \<and>
   (no_earlier_rule (ToLower ul mode) [''mixolydian'', ''dorian'', ''phrygian'', ''lydian''] \<and>
    first_at (ToLower ul mode) p ''locrian'' q
      \<longrightarrow> modeToBetter ul mode = p @ '' loc'' @ q) \<and>
   (no_earlier_rule (ToLower ul mode)
      [''mixolydian'', ''dorian'', ''phrygian'', ''lydian'', ''locrian'']
      \<longrightarrow> modeToBetter ul mode = ToLower ul mode) \<and>
   modeToBetter ul ''Gmajor'' = ''g'' \<and>
   modeToBetter ul ''Aminor'' = ''am'' \<and>
   modeToBetter ul ''Dmixolydian'' = ''d mix''"
proof -
  let ?m = "ToLower ul mode"
  have major: "modeToBetter ul mode = p" if "?m = p @ ''major''"
    using that by (simp add: modeToBetter_def HasSuffix_iff TrimSuffix_append)
  have minor: "modeToBetter ul mode = p @ ''m''"
    if "\<not> HasSuffix ?m ''major''" and "?m = p @ ''minor''"
  proof -
    have "HasSuffix ?m ''minor''" using that(2) by (simp add: HasSuffix_iff)
    then show ?thesis
      using that by (simp add: modeToBetter_def TrimSuffix_append)
  qed
  have sub: "modeToBetter ul mode =
      (if Contains ?m ''mixolydian'' then Replace ?m ''mixolydian'' '' mix'' 1
       else if Contains ?m ''dorian'' then Replace ?m ''dorian'' '' dor'' 1
       else if Contains ?m ''phrygian'' then Replace ?m ''phrygian'' '' phr'' 1
       else if Contains ?m ''lydian'' then Replace ?m ''lydian'' '' lyd'' 1
       else if Contains ?m ''locrian'' then Replace ?m ''locrian'' '' loc'' 1
       else ?m)"
    if "\<not> HasSuffix ?m ''major''" and "\<not> HasSuffix ?m ''minor''"
    using that by (simp add: modeToBetter_def)
  have ex1: "modeToBetter ul ''Gmajor'' = ''g''" by code_simp
  have ex2: "modeToBetter ul ''Aminor'' = ''am''" by code_simp
  have ex3: "modeToBetter ul ''Dmixolydian'' = ''d mix''" by code_simp
  show ?thesis
    using major minor ex1 ex2 ex3
    by (auto simp: no_earlier_rule_def sub Replace_first_at first_at_Contains)
qed

text \<open>
  The rules of C1 at concrete modes, one for each rule; \<^verbatim>\<open>Dmixolydian dorian\<close> holds two
  keywords and only the first rule that matches is applied.
\<close>

theorem modeToBetter_rules_witness:
  "(ToLower id ''Gmajor'' = ''g'' @ ''major'' \<and> modeToBetter id ''Gmajor'' = ''g'') \<and>
   (\<not> HasSuffix (ToLower id ''Aminor'') ''major'' \<and> ToLower id ''Aminor'' = ''a'' @ ''minor'' \<and>
    modeToBetter id ''Aminor'' = ''am'') \<and>
   (no_earlier_rule (ToLower id ''Dmixolydian dorian'') [] \<and>
    first_at (ToLower id ''Dmixolydian dorian'') ''d'' ''mixolydian'' '' dorian'' \<and>
    modeToBetter id ''Dmixolydian dorian'' = ''d mix dorian'') \<and>
   (no_earlier_rule (ToLower id ''Edorian'') [''mixolydian''] \<and>
    first_at (ToLower id ''Edorian'') ''e'' ''dorian'' [] \<and>
    modeToBetter id ''Edorian'' = ''e dor'') \<and>
   (no_earlier_rule (ToLower id ''Ephrygian'') [''mixolydian'', ''dorian''] \<and>
    first_at (ToLower id ''Ephrygian'') ''e'' ''phrygian'' [] \<and>
    modeToBetter id ''Ephrygian'' = ''e phr'') \<and>
   (no_earlier_rule (ToLower id ''Flydian'') [''mixolydian'', ''dorian'', ''phrygian''] \<and>
    first_at (ToLower id ''Flydian'') ''f'' ''lydian'' [] \<and>
    modeToBetter id ''Flydian'' = ''f lyd'') \<and>
   (no_earlier_rule (ToLower id ''Blocrian'') [''mixolydian'', ''dorian'', ''phrygian'', ''lydian''] \<and>
    first_at (ToLower id ''Blocrian'') ''b'' ''locrian'' [] \<and>
    modeToBetter id ''Blocrian'' = ''b loc'') \<and>
   (no_earlier_rule (ToLower id ''Ador'')
      [''mixolydian'', ''dorian'', ''phrygian'', ''lydian'', ''locrian''] \<and>
    modeToBetter id ''Ador'' = ''ador'')"
proof -
  have h1: "ToLower id ''Gmajor'' = ''g'' @ ''major''" by code_simp
  have h2: "\<not> HasSuffix (ToLower id ''Aminor'') ''major'' \<and> ToLower id ''Aminor'' = ''a'' @ ''minor''"
    by code_simp
  have h3: "no_earlier_rule (ToLower id ''Dmixolydian dorian'') [] \<and>
    first_at (ToLower id ''Dmixolydian dorian'') ''d'' ''mixolydian'' '' dorian''"
    by code_simp
  have h4: "no_earlier_rule (ToLower id ''Edorian'') [''mixolydian''] \<and>
    first_at (ToLower id ''Edorian'') ''e'' ''dorian'' []"
    by code_simp
  have h5: "no_earlier_rule (ToLower id ''Ephrygian'') [''mixolydian'', ''dorian''] \<and>
    first_at (ToLower id ''Ephrygian'') ''e'' ''phrygian'' []"
    by code_simp
  have h6: "no_earlier_rule (ToLower id ''Flydian'') [''mixolydian'', ''dorian'', ''phrygian''] \<and>
    first_at (ToLower id ''Flydian'') ''f'' ''lydian'' []"
    by code_simp
  have h7: "no_earlier_rule (ToLower id ''Blocrian'') [''mixolydian'', ''dorian'', ''phrygian'', ''lydian''] \<and>
    first_at (ToLower id ''Blocrian'') ''b'' ''locrian'' []"
    by code_simp
  have h8: "no_earlier_rule (ToLower id ''Ador'')
      [''mixolydian'', ''dorian'', ''phrygian'', ''lydian'', ''locrian'']"
    by code_simp
  have c1: "modeToBetter id ''Gmajor'' = ''g''"
    using modeToBetter_rules [of id "''Gmajor''" "''g''"] h1 by blast
  have "modeToBetter id ''Aminor'' = ''a'' @ ''m''"
    using modeToBetter_rules [of id "''Aminor''" "''a''"] h2 by blast
  then have c2: "modeToBetter id ''Aminor'' = ''am''" by simp
  have "modeToBetter id ''Dmixolydian dorian'' = ''d'' @ '' mix'' @ '' dorian''"
    using modeToBetter_rules [of id "''Dmixolydian dorian''" "''d''" "'' dorian''"] h3 by blast
  then have c3: "modeToBetter id ''Dmixolydian dorian'' = ''d mix dorian''" by simp
  have "modeToBetter id ''Edorian'' = ''e'' @ '' dor'' @ []"
    using modeToBetter_rules [of id "''Edorian''" "''e''" "[]"] h4 by blast
  then have c4: "modeToBetter id ''Edorian'' = ''e dor''" by simp
  have "modeToBetter id ''Ephrygian'' = ''e'' @ '' phr'' @ []"
    using modeToBetter_rules [of id "''Ephrygian''" "''e''" "[]"] h5 by blast
  then have c5: "modeToBetter id ''Ephrygian'' = ''e phr''" by simp
  have "modeToBetter id ''Flydian'' = ''f'' @ '' lyd'' @ []"
    using modeToBetter_rules [of id "''Flydian''" "''f''" "[]"] h6 by blast
  then have c6: "modeToBetter id ''Flydian'' = ''f lyd''" by simp
  have "modeToBetter id ''Blocrian'' = ''b'' @ '' loc'' @ []"
    using modeToBetter_rules [of id "''Blocrian''" "''b''" "[]"] h7 by blast
  then have c7: "modeToBetter id ''Blocrian'' = ''b loc''" by simp
  have l8: "ToLower id ''Ador'' = ''ador''" by code_simp
  have "modeToBetter id ''Ador'' = ToLower id ''Ador''"
    using modeToBetter_rules [of id "''Ador''"] h8 by blast
  then have c8: "modeToBetter id ''Ador'' = ''ador''" by (simp only: l8)
  show ?thesis
    using h1 h2 h3 h4 h5 h6 h7 h8 c1 c2 c3 c4 c5 c6 c7 c8 by blast
qed

text \<open>
  C8, as amended. For every string whose lowercased form does not end with \<^verbatim>\<open>major\<close> or
  \<^verbatim>\<open>minor\<close> and contains none of the five mode names, normalizing returns the lowercased
  form, and normalizing that result again returns the same string. Lowercasing has to be
  idempotent on the string, which it is for every ASCII string (\<open>ToLower_ascii_idem\<close>);
  for other strings it is a property of the Unicode tables behind \<open>ul\<close>.
\<close>

theorem modeToBetter_passthrough_idempotent:
  assumes "ToLower ul (ToLower ul s) = ToLower ul s"
    and "no_earlier_rule (ToLower ul s)
      [''mixolydian'', ''dorian'', ''phrygian'', ''lydian'', ''locrian'']"
  shows "modeToBetter ul s = ToLower ul s \<and>
         modeToBetter ul (modeToBetter ul s) = modeToBetter ul s"
proof -
  have pass: "modeToBetter ul t = ToLower ul t"
    if "no_earlier_rule (ToLower ul t) [''mixolydian'', ''dorian'', ''phrygian'', ''lydian'', ''locrian'']"
    for t
    using that by (simp add: modeToBetter_def no_earlier_rule_def)
  have first: "modeToBetter ul s = ToLower ul s" using assms(2) by (rule pass)
  have "modeToBetter ul (ToLower ul s) = ToLower ul (ToLower ul s)"
    using assms by (intro pass) simp
  with first assms(1) show ?thesis by simp
qed

text \<open>
  C8 at the keys \<^verbatim>\<open>Ador\<close> and \<^verbatim>\<open>g\<close>.
\<close>

theorem modeToBetter_passthrough_idempotent_witness:
  "ToLower id (ToLower id ''Ador'') = ToLower id ''Ador'' \<and>
   no_earlier_rule (ToLower id ''Ador'') [''mixolydian'', ''dorian'', ''phrygian'', ''lydian'', ''locrian''] \<and>
   modeToBetter id ''Ador'' = ''ador'' \<and>
   modeToBetter id (modeToBetter id ''Ador'') = ''ador'' \<and>
   modeToBetter id ''g'' = ''g''"
proof -
  have h1: "ToLower id (ToLower id ''Ador'') = ToLower id ''Ador''" by code_simp
  have h2: "no_earlier_rule (ToLower id ''Ador'')
      [''mixolydian'', ''dorian'', ''phrygian'', ''lydian'', ''locrian'']" by code_simp
  have l: "ToLower id ''Ador'' = ''ador''" by code_simp
  have g1: "ToLower id (ToLower id ''g'') = ToLower id ''g''" by code_simp
  have g2: "no_earlier_rule (ToLower id ''g'')
      [''mixolydian'', ''dorian'', ''phrygian'', ''lydian'', ''locrian'']" by code_simp
  have gl: "ToLower id ''g'' = ''g''" by code_simp
  have a: "modeToBetter id ''Ador'' = ''ador''"
    using modeToBetter_passthrough_idempotent [OF h1 h2] by (simp only: l)
  have b: "modeToBetter id (modeToBetter id ''Ador'') = ''ador''"
    using modeToBetter_passthrough_idempotent [OF h1 h2, THEN conjunct2] a by (rule trans)
  have c: "modeToBetter id ''g'' = ''g''"
    using modeToBetter_passthrough_idempotent [OF g1 g2] by (simp only: gl)
  show ?thesis using h1 h2 a b c by blast
qed

text \<open>
  C8 as stated tests the suffixes and the mode names on the string itself, while the
  normalizer tests them after lowercasing: \<^verbatim>\<open>GMAJOR\<close> does not end with \<^verbatim>\<open>major\<close> or
  \<^verbatim>\<open>minor\<close> and contains no mode name, yet its normal form is \<^verbatim>\<open>g\<close>, not the lowercased
  string \<^verbatim>\<open>gmajor\<close>.
\<close>

theorem modeToBetter_case_counterexample:
  "\<not> HasSuffix ''GMAJOR'' ''major'' \<and> \<not> HasSuffix ''GMAJOR'' ''minor'' \<and>
   \<not> Contains ''GMAJOR'' ''mixolydian'' \<and> \<not> Contains ''GMAJOR'' ''dorian'' \<and>
   \<not> Contains ''GMAJOR'' ''phrygian'' \<and> \<not> Contains ''GMAJOR'' ''lydian'' \<and>
   \<not> Contains ''GMAJOR'' ''locrian'' \<and>
   ToLower id ''GMAJOR'' = ''gmajor'' \<and> modeToBetter id ''GMAJOR'' = ''g'' \<and>
   modeToBetter id ''GMAJOR'' \<noteq> ToLower id ''GMAJOR''"
  by code_simp

section \<open>Properties of the filename sanitizer\<close>

text \<open>
  C2, as amended. Sanitizing the title \<^verbatim>\<open>Tune: The/Best?\<close> produces
  \<^verbatim>\<open>Tune_ The_Best_\<close>: the colon, the slash and the question mark become underscores and
  the space stays, since sanitization replaces each occurrence of the nine characters
  \<^verbatim>\<open>/ \ : * ? " < > |\<close> with an underscore (and then keeps the first 50 bytes).
\<close>

theorem sanitize_example:
  "sanitizeFileName ''Tune: The/Best?'' = ''Tune_ The_Best_'' \<and>
   sanitizeFileName name = take 50 (map underscored name)"
proof
  show "sanitizeFileName ''Tune: The/Best?'' = ''Tune_ The_Best_''" by code_simp
  show "sanitizeFileName name = take 50 (map underscored name)" by (rule sanitizeFileName_eq)
qed

text \<open>
  C2 as stated expects \<^verbatim>\<open>Tune__The_Best_\<close>, with the space replaced as well.
\<close>

theorem sanitize_example_counterexample:
  "sanitizeFileName ''Tune: The/Best?'' \<noteq> ''Tune__The_Best_''"
  by code_simp

text \<open>
  C3, as amended. A title longer than 50 bytes is cut to exactly its first 50 bytes
  (sanitized): the cut counts bytes, not characters, and is never moved to a character
  boundary.
\<close>

theorem sanitize_truncation:
  assumes "50 < length name"
  shows "length (sanitizeFileName name) = 50 \<and>
         sanitizeFileName name = map underscored (take 50 name)"
  using assms by (simp add: sanitizeFileName_eq take_map)

text \<open>
  C3 at a title of 49 letters, a two-byte character and a slash: the result is 50 bytes
  long and ends in the middle of the two-byte character.
\<close>

theorem sanitize_truncation_witness:
  "50 < length (replicate 49 CHR ''a'' @ [CHR 0xC3, CHR 0xA9, CHR ''/'']) \<and>
   length (sanitizeFileName (replicate 49 CHR ''a'' @ [CHR 0xC3, CHR 0xA9, CHR ''/''])) = 50 \<and>
   sanitizeFileName (replicate 49 CHR ''a'' @ [CHR 0xC3, CHR 0xA9, CHR ''/''])
     = replicate 49 CHR ''a'' @ [CHR 0xC3]"
proof -
  let ?t = "replicate 49 CHR ''a'' @ [CHR 0xC3, CHR 0xA9, CHR ''/'']"
  have h: "50 < length ?t" by simp
  have e: "map underscored (take 50 ?t) = replicate 49 CHR ''a'' @ [CHR 0xC3]"
    by (simp add: underscored_def)
  from sanitize_truncation [OF h] e h show ?thesis by simp
qed

text \<open>
  C3 as stated counts characters. The title \<open>e_acute_51\<close> has 51 characters; the byte at
  offset 50 starts a character, so the cut is on a character boundary, and yet the result
  has only 25 characters.
\<close>

theorem sanitize_truncation_counterexample:
  "charCount e_acute_51 = 51 \<and>
   charCount (sanitizeFileName e_acute_51) = 25 \<and>
   \<not> isContinuation (e_acute_51 ! 50)"
  by code_simp

text \<open>
  C10. For every input string the sanitizer's output is at most 50 bytes long and
  contains none of the nine characters \<^verbatim>\<open>/ \ : * ? " < > |\<close>.
\<close>

theorem sanitize_bounds:
  "length (sanitizeFileName name) \<le> 50 \<and>
   set (sanitizeFileName name) \<inter>
     {CHR ''/'', CHR 0x5C, CHR '':'', CHR ''*'', CHR ''?'', CHR 0x22, CHR ''<'', CHR ''>'', CHR ''|''} = {}"
proof -
  define B where "B = {CHR ''/'', CHR 0x5C, CHR '':'', CHR ''*'', CHR ''?'', CHR 0x22, CHR ''<'',
    CHR ''>'', CHR ''|''}"
  have len: "length (sanitizeFileName name) \<le> 50" by (simp add: sanitizeFileName_eq)
  have "underscored c \<notin> B" for c
    by (simp add: B_def underscored_def)
  then have "set (map underscored name) \<inter> B = {}"
    by auto
  moreover have "set (sanitizeFileName name) \<subseteq> set (map underscored name)"
    unfolding sanitizeFileName_eq by (rule set_take_subset)
  ultimately have "set (sanitizeFileName name) \<inter> B = {}"
    by blast
  with len show ?thesis unfolding B_def by (rule conjI)
qed

section \<open>Tune records and the decoder\<close>

text \<open>The struct \<^verbatim>\<open>Tune\<close> (main.go, lines 14-24).\<close>

record Tune =
  TuneID :: string
  SettingID :: string
  Name :: string
  Type :: string
  Meter :: string
  Mode :: string
  ABC :: string
  Date :: string
  Username :: string

text \<open>
  The fields of the struct in declaration order, as package \<^verbatim>\<open>encoding/json\<close> sees them
  through reflection: each has the key of its \<^verbatim>\<open>json\<close> tag and is a Go \<^verbatim>\<open>string\<close>.
  The option \<^verbatim>\<open>omitempty\<close> of the last two only matters when encoding.
\<close>

datatype field =
  FTuneID | FSettingID | FName | FType | FMeter | FMode | FABC | FDate | FUsername

definition allFields :: "field list" where
  "allFields = [FTuneID, FSettingID, FName, FType, FMeter, FMode, FABC, FDate, FUsername]"

fun fieldKey :: "field \<Rightarrow> string" where
  "fieldKey FTuneID = ''tune_id''"
| "fieldKey FSettingID = ''setting_id''"
| "fieldKey FName = ''name''"
| "fieldKey FType = ''type''"
| "fieldKey FMeter = ''meter''"
| "fieldKey FMode = ''mode''"
| "fieldKey FABC = ''abc''"
| "fieldKey FDate = ''date''"
| "fieldKey FUsername = ''username''"

fun getField :: "field \<Rightarrow> Tune \<Rightarrow> string" where
  "getField FTuneID t = TuneID t"
| "getField FSettingID t = SettingID t"
| "getField FName t = Name t"
| "getField FType t = Type t"
| "getField FMeter t = Meter t"
| "getField FMode t = Mode t"
| "getField FABC t = ABC t"
| "getField FDate t = Date t"
| "getField FUsername t = Username t"

fun setField :: "field \<Rightarrow> string \<Rightarrow> Tune \<Rightarrow> Tune" where
  "setField FTuneID v t = t\<lparr>TuneID := v\<rparr>"
| "setField FSettingID v t = t\<lparr>SettingID := v\<rparr>"
| "setField FName v t = t\<lparr>Name := v\<rparr>"
| "setField FType v t = t\<lparr>Type := v\<rparr>"
| "setField FMeter v t = t\<lparr>Meter := v\<rparr>"
| "setField FMode v t = t\<lparr>Mode := v\<rparr>"
| "setField FABC v t = t\<lparr>ABC := v\<rparr>"
| "setField FDate v t = t\<lparr>Date := v\<rparr>"
| "setField FUsername v t = t\<lparr>Username := v\<rparr>"

text \<open>The zero value of the struct: every field is the empty string.\<close>

definition zeroTune :: Tune where
  "zeroTune = \<lparr>TuneID = [], SettingID = [], Name = [], Type = [], Meter = [], Mode = [],
     ABC = [], Date = [], Username = []\<rparr>"

text \<open>
  A JSON text that passed the syntax check, as the tree of values the decoder walks:
  an object keeps its members in input order, duplicates included; a string member is
  held unquoted and unescaped, a number as its literal.
\<close>

datatype json =
  JNull | JBool bool | JNumber string | JString string | JArray "json list"
  | JObject "(string \<times> json) list"

text \<open>
  The errors of the program: those of \<^verbatim>\<open>json.Unmarshal\<close> (a \<^verbatim>\<open>SyntaxError\<close>, or an
  \<^verbatim>\<open>UnmarshalTypeError\<close> with the kind of JSON value, its field \<^verbatim>\<open>Value\<close>) and those of
  the operating system, with their message.
\<close>

datatype error = SyntaxError | UnmarshalTypeError string | OSError string

text \<open>
  \<^verbatim>\<open>json.Unmarshal(data, &tunes)\<close> for \<^verbatim>\<open>tunes\<close> a nil \<^verbatim>\<open>[]Tune\<close>, following the decoder of
  \<^verbatim>\<open>encoding/json\<close> (\<^verbatim>\<open>decode.go\<close>).

  The decoder keeps the first type error (\<^verbatim>\<open>saveError\<close>), goes on decoding and returns
  that error at the end, so a result is an optional error together with what was stored.
\<close>

definition saveError :: "error option \<Rightarrow> error option \<Rightarrow> error option" where
  "saveError saved err = (case saved of None \<Rightarrow> err | Some e \<Rightarrow> Some e)"

text \<open>
  A key selects the field whose tag it equals, else the first field whose tag equals it
  up to case folding; \<open>foldName\<close> is the decoder's folding of a key (\<^verbatim>\<open>foldName\<close>), which
  rests on Unicode tables. A key that selects no field is skipped with its value.
\<close>

definition findField :: "(string \<Rightarrow> string) \<Rightarrow> string \<Rightarrow> field option" where
  "findField foldName key =
     (case find (\<lambda>f. fieldKey f = key) allFields of
        Some f \<Rightarrow> Some f
      | None \<Rightarrow> find (\<lambda>f. foldName (fieldKey f) = foldName key) allFields)"

text \<open>
  Storing a JSON value into a \<^verbatim>\<open>string\<close> field (\<^verbatim>\<open>literalStore\<close>, and \<^verbatim>\<open>array\<close> and
  \<^verbatim>\<open>object\<close> for composite values): a string is stored, \<^verbatim>\<open>null\<close> has no effect, anything
  else is a type error and leaves the field as it is.
\<close>

fun storeString :: "json \<Rightarrow> field \<Rightarrow> Tune \<Rightarrow> error option \<times> Tune" where
  "storeString (JString s) f t = (None, setField f s t)"
| "storeString JNull f t = (None, t)"
| "storeString (JBool b) f t = (Some (UnmarshalTypeError ''bool''), t)"
| "storeString (JNumber n) f t = (Some (UnmarshalTypeError ''number''), t)"
| "storeString (JArray es) f t = (Some (UnmarshalTypeError ''array''), t)"
| "storeString (JObject kvs) f t = (Some (UnmarshalTypeError ''object''), t)"

text \<open>The members of an object, decoded in input order into the struct (\<^verbatim>\<open>object\<close>).\<close>

fun object :: "(string \<Rightarrow> string) \<Rightarrow> (string \<times> json) list \<Rightarrow> error option \<times> Tune
    \<Rightarrow> error option \<times> Tune" where
  "object foldName [] (saved, t) = (saved, t)"
| "object foldName ((key, v) # kvs) (saved, t) =
     (case findField foldName key of
        None \<Rightarrow> object foldName kvs (saved, t)
      | Some f \<Rightarrow>
          (case storeString v f t of
             (err, t') \<Rightarrow> object foldName kvs (saveError saved err, t')))"

text \<open>
  One array element, decoded into a fresh (zero) struct: an object fills it, \<^verbatim>\<open>null\<close>
  leaves it zero, any other value is a type error and leaves it zero.
\<close>

fun decodeTune :: "(string \<Rightarrow> string) \<Rightarrow> json \<Rightarrow> error option \<times> Tune" where
  "decodeTune foldName (JObject kvs) = object foldName kvs (None, zeroTune)"
| "decodeTune foldName JNull = (None, zeroTune)"
| "decodeTune foldName (JBool b) = (Some (UnmarshalTypeError ''bool''), zeroTune)"
| "decodeTune foldName (JNumber n) = (Some (UnmarshalTypeError ''number''), zeroTune)"
| "decodeTune foldName (JString s) = (Some (UnmarshalTypeError ''string''), zeroTune)"
| "decodeTune foldName (JArray es) = (Some (UnmarshalTypeError ''array''), zeroTune)"

text \<open>The elements of an array, appended to the slice in order (\<^verbatim>\<open>array\<close>).\<close>

fun array :: "(string \<Rightarrow> string) \<Rightarrow> json list \<Rightarrow> error option \<times> Tune list
    \<Rightarrow> error option \<times> Tune list" where
  "array foldName [] (saved, tunes) = (saved, tunes)"
| "array foldName (e # es) (saved, tunes) =
     (case decodeTune foldName e of
        (err, t) \<Rightarrow> array foldName es (saveError saved err, tunes @ [t]))"

text \<open>
  The top-level value, decoded into the slice: an array fills it, \<^verbatim>\<open>null\<close> sets it to
  nil without an error, any other value is a type error.
\<close>

fun unmarshalValue :: "(string \<Rightarrow> string) \<Rightarrow> json \<Rightarrow> error option \<times> Tune list" where
  "unmarshalValue foldName (JArray es) = array foldName es (None, [])"
| "unmarshalValue foldName JNull = (None, [])"
| "unmarshalValue foldName (JBool b) = (Some (UnmarshalTypeError ''bool''), [])"
| "unmarshalValue foldName (JNumber n) = (Some (UnmarshalTypeError ''number''), [])"
| "unmarshalValue foldName (JString s) = (Some (UnmarshalTypeError ''string''), [])"
| "unmarshalValue foldName (JObject kvs) = (Some (UnmarshalTypeError ''object''), [])"

text \<open>
  \<^verbatim>\<open>Unmarshal\<close> first checks the syntax of the whole input (\<^verbatim>\<open>checkValid\<close>) and decodes
  nothing when it is malformed. The JSON grammar is the parameter \<open>jsonSyntax\<close>: \<^term>\<open>None\<close>
  for a malformed text, else the tree of the text.
\<close>

definition Unmarshal :: "(string \<Rightarrow> json option) \<Rightarrow> (string \<Rightarrow> string) \<Rightarrow> string
    \<Rightarrow> error option \<times> Tune list" where
  "Unmarshal jsonSyntax foldName data =
     (case jsonSyntax data of
        None \<Rightarrow> (Some SyntaxError, [])
      | Some v \<Rightarrow> unmarshalValue foldName v)"

section \<open>Files, standard output and the operating system\<close>

text \<open>
  What the program prints, one constructor for each print statement of main.go with the
  arguments of its format; the rendering of \<^verbatim>\<open>%d\<close> and \<^verbatim>\<open>%v\<close> is left to \<^verbatim>\<open>fmt\<close>.
  All of them go to standard output but the flag defaults, which \<^verbatim>\<open>flag.PrintDefaults\<close>
  writes to standard error.
\<close>

datatype printed =
    PleaseProvideInput \<comment> \<open>line 34\<close>
  | PrintDefaults \<comment> \<open>line 35, \<^verbatim>\<open>flag.PrintDefaults()\<close>\<close>
  | ErrorReadingFile error \<comment> \<open>line 42\<close>
  | ErrorParsingJSON error \<comment> \<open>line 50\<close>
  | FoundTunes nat \<comment> \<open>line 54\<close>
  | ErrorCreatingOutputDirectory error \<comment> \<open>line 60\<close>
  | CreatedOutputDirectory string \<comment> \<open>line 63\<close>
  | ErrorCreatingOutputFile error \<comment> \<open>line 79\<close>
  | SuccessfullyWroteTo nat string \<comment> \<open>line 103\<close>
  | ErrorCreatingOutputFileAt string error \<comment> \<open>line 118\<close>
  | ProcessedTunes nat \<comment> \<open>line 143\<close>
  | SuccessfullyWroteIndividual nat string \<comment> \<open>line 147\<close>

text \<open>
  The state the program acts on: the regular files by path, with their bytes, and what
  has been printed so far on standard output and on standard error.
\<close>

record world =
  files :: "string \<rightharpoonup> string"
  stdout :: "printed list"
  stderr :: "printed list"

text \<open>
  The library and the operating system, as far as their answers do not follow from the
  program: the Unicode lowercasing of \<^verbatim>\<open>strings.ToLower\<close>, \<^verbatim>\<open>filepath.Join\<close>,
  \<^verbatim>\<open>ioutil.ReadFile\<close>, the JSON grammar and key folding of \<^verbatim>\<open>encoding/json\<close>, whether
  \<^verbatim>\<open>os.Stat\<close> reports a missing directory, and the errors of \<^verbatim>\<open>os.MkdirAll\<close> and
  \<^verbatim>\<open>os.Create\<close> (\<^term>\<open>None\<close> is Go's \<^verbatim>\<open>nil\<close> error). \<^verbatim>\<open>os.Create\<close> is asked once for
  every tune, so its answer may depend on the state.
\<close>

record env =
  unicodeLower :: "string \<Rightarrow> string"
  filepathJoin :: "string \<Rightarrow> string \<Rightarrow> string"
  ioutilReadFile :: "world \<Rightarrow> string \<Rightarrow> error + string"
  jsonSyntax :: "string \<Rightarrow> json option"
  jsonFoldName :: "string \<Rightarrow> string"
  osStatIsNotExist :: "string \<Rightarrow> bool"
  osMkdirAll :: "string \<Rightarrow> error option"
  osCreate :: "world \<Rightarrow> string \<Rightarrow> error option"

definition Printf :: "printed \<Rightarrow> world \<Rightarrow> world" where
  "Printf p w = w\<lparr>stdout := stdout w @ [p]\<rparr>"

text \<open>\<^verbatim>\<open>flag.PrintDefaults()\<close> writes the usage of the flags to standard error.\<close>

definition flagPrintDefaults :: "world \<Rightarrow> world" where
  "flagPrintDefaults w = w\<lparr>stderr := stderr w @ [PrintDefaults]\<rparr>"

text \<open>A successful \<^verbatim>\<open>os.Create\<close> leaves an empty file at the path (creating or truncating it).\<close>

definition created :: "string \<Rightarrow> world \<Rightarrow> world" where
  "created path w = w\<lparr>files := (files w)(path \<mapsto> [])\<rparr>"

text \<open>
  \<^verbatim>\<open>fmt.Fprintf\<close> and \<^verbatim>\<open>fmt.Fprintln\<close> on an open file append the formatted text to it;
  the file is named by its path. The program ignores their errors, and so does the model:
  a write to an open file succeeds.
\<close>

abbreviation newline :: string where
  "newline \<equiv> [CHR 0x0A]"

definition Fprintf :: "string \<Rightarrow> string \<Rightarrow> world \<Rightarrow> world" where
  "Fprintf f text w =
     (case files w f of
        None \<Rightarrow> w
      | Some bytes \<Rightarrow> w\<lparr>files := (files w)(f \<mapsto> bytes @ text)\<rparr>)"

definition Fprintln :: "string \<Rightarrow> string \<Rightarrow> world \<Rightarrow> world" where
  "Fprintln f text w = Fprintf f (text @ newline) w"

section \<open>The output writer and the program\<close>

text \<open>How a function ends: it returns, or \<^verbatim>\<open>os.Exit\<close> ends the process with a status.\<close>

datatype outcome = Returned | Exited int

text \<open>The loop of \<^verbatim>\<open>outputToSingleFile\<close> (main.go, lines 84-101).\<close>

fun singleFileLoop :: "env \<Rightarrow> string \<Rightarrow> Tune list \<Rightarrow> world \<Rightarrow> world" where
  "singleFileLoop e f [] w = w"
| "singleFileLoop e f (tune # tunes) w =
     (let w = Fprintf f (''X:'' @ SettingID tune @ newline) w;
          w = Fprintf f (''T:'' @ Name tune @ newline) w;
          w = Fprintf f (''R:'' @ Type tune @ newline) w;
          w = Fprintf f (''M:'' @ Meter tune @ newline) w;
          w = Fprintf f (''K:'' @ modeToBetter (unicodeLower e) (Mode tune) @ newline) w;
          w = (if Username tune \<noteq> [] then Fprintf f (''Z:'' @ Username tune @ newline) w else w);
          w = (if Date tune \<noteq> [] then Fprintf f (''H:Added '' @ Date tune @ newline) w else w);
          w = Fprintln f (ABC tune) w;
          w = Fprintln f [] w
      in singleFileLoop e f tunes w)"

text \<open>\<^verbatim>\<open>outputToSingleFile\<close> (main.go, lines 75-104).\<close>

definition outputToSingleFile :: "env \<Rightarrow> Tune list \<Rightarrow> string \<Rightarrow> string \<Rightarrow> world
    \<Rightarrow> outcome \<times> world" where
  "outputToSingleFile e tunes outputDir fileName w =
     (let outputPath = filepathJoin e outputDir fileName in
      case osCreate e w outputPath of
        Some err \<Rightarrow> (Exited 1, Printf (ErrorCreatingOutputFile err) w)
      | None \<Rightarrow>
          (let w = created outputPath w;
               w = singleFileLoop e outputPath tunes w
           in (Returned, Printf (SuccessfullyWroteTo (length tunes) outputPath) w)))"

text \<open>
  The loop of \<^verbatim>\<open>outputToMultipleFiles\<close> (main.go, lines 109-145), from index \<open>i\<close> on,
  with the counter \<open>processed\<close>.
\<close>

fun multipleFilesLoop :: "env \<Rightarrow> string \<Rightarrow> Tune list \<Rightarrow> nat \<Rightarrow> nat \<times> world \<Rightarrow> nat \<times> world" where
  "multipleFilesLoop e outputDir [] i (processed, w) = (processed, w)"
| "multipleFilesLoop e outputDir (tune # tunes) i (processed, w) =
     (let safeName = sanitizeFileName (Name tune);
          fileName = SettingID tune @ ''_'' @ safeName @ ''.abc'';
          outputPath = filepathJoin e outputDir fileName
      in case osCreate e w outputPath of
           Some err \<Rightarrow>
             multipleFilesLoop e outputDir tunes (i + 1)
               (processed, Printf (ErrorCreatingOutputFileAt outputPath err) w)
         | None \<Rightarrow>
             (let f = outputPath;
                  w = created f w;
                  w = Fprintf f (''X:'' @ SettingID tune @ newline) w;
                  w = Fprintf f (''T:'' @ Name tune @ newline) w;
                  w = Fprintf f (''R:'' @ Type tune @ newline) w;
                  w = Fprintf f (''M:'' @ Meter tune @ newline) w;
                  w = Fprintf f (''K:'' @ modeToBetter (unicodeLower e) (Mode tune) @ newline) w;
                  w = (if Username tune \<noteq> [] then Fprintf f (''Z:'' @ Username tune @ newline) w
                       else w);
                  w = (if Date tune \<noteq> [] then Fprintf f (''H:Added '' @ Date tune @ newline) w
                       else w);
                  w = Fprintln f (ABC tune) w;
                  processed = processed + 1;
                  w = (if (i + 1) mod 100 = 0 then Printf (ProcessedTunes (i + 1)) w else w)
              in multipleFilesLoop e outputDir tunes (i + 1) (processed, w)))"

text \<open>\<^verbatim>\<open>outputToMultipleFiles\<close> (main.go, lines 106-148).\<close>

definition outputToMultipleFiles :: "env \<Rightarrow> Tune list \<Rightarrow> string \<Rightarrow> world \<Rightarrow> world" where
  "outputToMultipleFiles e tunes outputDir w =
     (case multipleFilesLoop e outputDir tunes 0 (0, w) of
        (processed, w) \<Rightarrow> Printf (SuccessfullyWroteIndividual processed outputDir) w)"

text \<open>
  The command line after \<^verbatim>\<open>flag.Parse()\<close>: the values of \<^verbatim>\<open>-input\<close>, \<^verbatim>\<open>-output\<close>,
  \<^verbatim>\<open>-single\<close> and \<^verbatim>\<open>-outfile\<close>, defaults filled in. The variable \<^verbatim>\<open>outputDir\<close> of
  \<^verbatim>\<open>main\<close> is the field \<open>outputFlag\<close>, the name \<open>outputDir\<close> being that of the
  writers' parameter.
\<close>

record flags =
  inputFile :: string
  outputFlag :: string
  singleFile :: bool
  singleFilePath :: string

text \<open>
  \<^verbatim>\<open>main\<close> (main.go, lines 26-73), from the parsed flags: the exit status of the process
  (0 when \<^verbatim>\<open>main\<close> returns) and the final state. The value \<open>mk\<close> is the outcome of
  lines 57-64: the error of \<^verbatim>\<open>os.MkdirAll\<close>, or the state to go on with.
\<close>

definition main :: "env \<Rightarrow> flags \<Rightarrow> world \<Rightarrow> int \<times> world" where
  "main e fl w =
     (if inputFile fl = [] then (1, flagPrintDefaults (Printf PleaseProvideInput w))
      else case ioutilReadFile e w (inputFile fl) of
        Inl err \<Rightarrow> (1, Printf (ErrorReadingFile err) w)
      | Inr data \<Rightarrow>
          (case Unmarshal (jsonSyntax e) (jsonFoldName e) data of
             (Some err, tunes) \<Rightarrow> (1, Printf (ErrorParsingJSON err) w)
           | (None, tunes) \<Rightarrow>
               (let w = Printf (FoundTunes (length tunes)) w;
                    mk = (if osStatIsNotExist e (outputFlag fl) then
                            (case osMkdirAll e (outputFlag fl) of
                               Some err \<Rightarrow> Inl err
                             | None \<Rightarrow> Inr (Printf (CreatedOutputDirectory (outputFlag fl)) w))
                          else Inr w)
                in case mk of
                     Inl err \<Rightarrow> (1, Printf (ErrorCreatingOutputDirectory err) w)
                   | Inr w \<Rightarrow>
                       if singleFile fl then
                         (case outputToSingleFile e tunes (outputFlag fl) (singleFilePath fl) w of
                            (Exited status, w) \<Rightarrow> (status, w)
                          | (Returned, w) \<Rightarrow> (0, w))
                       else (0, outputToMultipleFiles e tunes (outputFlag fl) w))))"

section \<open>Notions and lemmas for the decoder and the writer\<close>

subsection \<open>Kinds of JSON values\<close>

fun isNull :: "json \<Rightarrow> bool" where
  "isNull JNull = True"
| "isNull v = False"

fun isString :: "json \<Rightarrow> bool" where
  "isString (JString s) = True"
| "isString v = False"

fun isArray :: "json \<Rightarrow> bool" where
  "isArray (JArray es) = True"
| "isArray v = False"

fun isObject :: "json \<Rightarrow> bool" where
  "isObject (JObject kvs) = True"
| "isObject v = False"

text \<open>An object all of whose members are strings, whatever their keys.\<close>

fun stringObject :: "json \<Rightarrow> bool" where
  "stringObject (JObject kvs) = list_all (\<lambda>kv. isString (snd kv)) kvs"
| "stringObject v = False"

subsection \<open>The decoder keeps the first error\<close>

lemma saveError_Some [simp]: "saveError (Some e) err = Some e"
  by (simp add: saveError_def)

lemma saveError_None [simp]: "saveError None err = err"
  by (simp add: saveError_def)

lemma saveError_no_error [simp]: "saveError saved None = saved"
  by (cases saved) simp_all

lemma saveError_eq_None: "saveError saved err = None \<longleftrightarrow> saved = None \<and> err = None"
  by (cases saved) simp_all

lemma storeString_error:
  "\<not> isString v \<Longrightarrow> \<not> isNull v \<Longrightarrow> fst (storeString v f t) \<noteq> None"
  by (cases v) simp_all

lemma storeString_ok: "isString v \<Longrightarrow> fst (storeString v f t) = None"
  by (cases v) simp_all

lemma getField_setField_other: "f \<noteq> g \<Longrightarrow> getField f (setField g s t) = getField f t"
  by (cases f; cases g) simp_all

lemma storeString_other: "f \<noteq> g \<Longrightarrow> getField f (snd (storeString v g t)) = getField f t"
  by (cases v) (simp_all add: getField_setField_other)

lemma object_keeps_error: "saved \<noteq> None \<Longrightarrow> fst (object fn kvs (saved, t)) \<noteq> None"
proof (induction kvs arbitrary: saved t)
  case Nil
  then show ?case by simp
next
  case (Cons kv kvs)
  obtain k v where kv: "kv = (k, v)" by (cases kv)
  show ?case
  proof (cases "findField fn k")
    case None
    with Cons kv show ?thesis by simp
  next
    case (Some f)
    obtain err t' where st: "storeString v f t = (err, t')" by (cases "storeString v f t")
    from Cons.prems have "saveError saved err \<noteq> None" by (simp add: saveError_eq_None)
    with Cons.IH kv Some st show ?thesis by simp
  qed
qed

lemma object_bad_member:
  assumes "(k, v) \<in> set kvs" and "findField fn k = Some f" and "\<not> isString v" and "\<not> isNull v"
  shows "fst (object fn kvs (saved, t)) \<noteq> None"
  using assms(1)
proof (induction kvs arbitrary: saved t)
  case Nil
  then show ?case by simp
next
  case (Cons kv kvs)
  obtain k' v' where kv: "kv = (k', v')" by (cases kv)
  show ?case
  proof (cases "findField fn k'")
    case None
    with assms(2) kv Cons.prems have "(k, v) \<in> set kvs" by auto
    with Cons.IH None kv show ?thesis by simp
  next
    case (Some f')
    obtain err t' where st: "storeString v' f' t = (err, t')" by (cases "storeString v' f' t")
    show ?thesis
    proof (cases "(k, v) = (k', v')")
      case True
      with assms(3,4) st have "err \<noteq> None"
        using storeString_error [of v' f' t] by auto
      then have "saveError saved err \<noteq> None" by (simp add: saveError_eq_None)
      then show ?thesis using kv Some st by (simp add: object_keeps_error)
    next
      case False
      with Cons.prems kv have "(k, v) \<in> set kvs" by auto
      with Cons.IH kv Some st show ?thesis by simp
    qed
  qed
qed

lemma object_strings_ok:
  "list_all (\<lambda>kv. isString (snd kv)) kvs \<Longrightarrow> fst (object fn kvs (saved, t)) = saved"
proof (induction kvs arbitrary: saved t)
  case Nil
  then show ?case by simp
next
  case (Cons kv kvs)
  obtain k v where kv: "kv = (k, v)" by (cases kv)
  show ?case
  proof (cases "findField fn k")
    case None
    with Cons kv show ?thesis by simp
  next
    case (Some f)
    obtain err t' where st: "storeString v f t = (err, t')" by (cases "storeString v f t")
    from Cons.prems kv have "isString v" by simp
    with st have "err = None" using storeString_ok [of v f t] by simp
    with Cons kv Some st show ?thesis by simp
  qed
qed

lemma object_omitted:
  "list_all (\<lambda>kv. findField fn (fst kv) \<noteq> Some f) kvs
    \<Longrightarrow> getField f (snd (object fn kvs (saved, t))) = getField f t"
proof (induction kvs arbitrary: saved t)
  case Nil
  then show ?case by simp
next
  case (Cons kv kvs)
  obtain k v where kv: "kv = (k, v)" by (cases kv)
  show ?case
  proof (cases "findField fn k")
    case None
    with Cons kv show ?thesis by simp
  next
    case (Some g)
    obtain err t' where st: "storeString v g t = (err, t')" by (cases "storeString v g t")
    from Cons.prems kv Some have "f \<noteq> g" by auto
    then have "getField f t' = getField f t"
      using storeString_other [of f g v t] st by simp
    with Cons kv Some st show ?thesis by simp
  qed
qed

lemma array_keeps_error: "saved \<noteq> None \<Longrightarrow> fst (array fn es (saved, ts)) \<noteq> None"
proof (induction es arbitrary: saved ts)
  case Nil
  then show ?case by simp
next
  case (Cons x es)
  obtain err t where d: "decodeTune fn x = (err, t)" by (cases "decodeTune fn x")
  from Cons.prems have "saveError saved err \<noteq> None" by (simp add: saveError_eq_None)
  with Cons.IH d show ?case by simp
qed

lemma array_bad_element:
  assumes "x \<in> set es" and "fst (decodeTune fn x) \<noteq> None"
  shows "fst (array fn es (saved, ts)) \<noteq> None"
  using assms(1)
proof (induction es arbitrary: saved ts)
  case Nil
  then show ?case by simp
next
  case (Cons y es)
  obtain err t where d: "decodeTune fn y = (err, t)" by (cases "decodeTune fn y")
  show ?case
  proof (cases "x = y")
    case True
    with assms(2) d have "saveError saved err \<noteq> None" by (simp add: saveError_eq_None)
    with d show ?thesis by (simp add: array_keeps_error)
  next
    case False
    with Cons.prems have "x \<in> set es" by simp
    with Cons.IH d show ?thesis by simp
  qed
qed

lemma array_ok:
  "list_all (\<lambda>x. fst (decodeTune fn x) = None) es
    \<Longrightarrow> array fn es (saved, ts) = (saved, ts @ map (\<lambda>x. snd (decodeTune fn x)) es)"
proof (induction es arbitrary: saved ts)
  case Nil
  then show ?case by simp
next
  case (Cons x es)
  obtain err t where d: "decodeTune fn x = (err, t)" by (cases "decodeTune fn x")
  with Cons.prems have "err = None" by simp
  with Cons d show ?case by simp
qed

lemma decodeTune_stringObject: "stringObject x \<Longrightarrow> fst (decodeTune fn x) = None"
  by (cases x) (simp_all add: object_strings_ok)

lemma decodeTune_bad_kind: "\<not> isObject x \<Longrightarrow> \<not> isNull x \<Longrightarrow> fst (decodeTune fn x) \<noteq> None"
  by (cases x) simp_all

lemma getField_zeroTune: "getField f zeroTune = []"
  by (cases f) (simp_all add: zeroTune_def)

subsection \<open>The rendering asked for by the specification\<close>

text \<open>
  The lines of one tune in the order of the specification (section 4.4): the five
  header lines, the \<^verbatim>\<open>Z:\<close> line when there is a username, the \<^verbatim>\<open>H:\<close> line when there is
  a date, and the body; \<open>abcBlock\<close> is these lines, each ended by a newline.
\<close>

definition abcLines :: "(string \<Rightarrow> string) \<Rightarrow> Tune \<Rightarrow> string list" where
  "abcLines ul t =
     [''X:'' @ SettingID t, ''T:'' @ Name t, ''R:'' @ Type t, ''M:'' @ Meter t,
      ''K:'' @ modeToBetter ul (Mode t)]
     @ (if Username t \<noteq> [] then [''Z:'' @ Username t] else [])
     @ (if Date t \<noteq> [] then [''H:Added '' @ Date t] else [])
     @ [ABC t]"

definition abcBlock :: "(string \<Rightarrow> string) \<Rightarrow> Tune \<Rightarrow> string" where
  "abcBlock ul t = concat (map (\<lambda>line. line @ newline) (abcLines ul t))"

text \<open>The name of a tune's file in multi-file mode (section 4.5).\<close>

definition abcFileName :: "Tune \<Rightarrow> string" where
  "abcFileName t = SettingID t @ ''_'' @ sanitizeFileName (Name t) @ ''.abc''"

text \<open>The number of tunes reported as skipped because their file could not be created.\<close>

fun skipped :: "printed list \<Rightarrow> nat" where
  "skipped [] = 0"
| "skipped (ErrorCreatingOutputFileAt path err # ps) = Suc (skipped ps)"
| "skipped (p # ps) = skipped ps"

subsection \<open>Writing to files\<close>

lemma Fprintf_open:
  "files w f = Some bytes \<Longrightarrow> Fprintf f text w = w\<lparr>files := (files w)(f \<mapsto> bytes @ text)\<rparr>"
  by (simp add: Fprintf_def)

lemma single_iteration:
  assumes "files w f = Some bytes"
  shows "singleFileLoop e f (tune # tunes) w =
    singleFileLoop e f tunes
      (w\<lparr>files := (files w)(f \<mapsto> bytes @ abcBlock (unicodeLower e) tune @ newline)\<rparr>)"
  using assms
  by (simp add: Fprintln_def Fprintf_open abcBlock_def abcLines_def)

lemma singleFileLoop_files:
  "files w f = Some bytes \<Longrightarrow>
   singleFileLoop e f tunes w =
     w\<lparr>files := (files w)(f \<mapsto>
          bytes @ concat (map (\<lambda>t. abcBlock (unicodeLower e) t @ newline) tunes))\<rparr>"
proof (induction tunes arbitrary: w bytes)
  case Nil
  then have "(files w)(f \<mapsto> bytes) = files w" by (simp add: fun_upd_idem)
  then show ?case by simp
next
  case (Cons tune tunes)
  let ?b = "bytes @ abcBlock (unicodeLower e) tune @ newline"
  let ?w = "w\<lparr>files := (files w)(f \<mapsto> ?b)\<rparr>"
  have "singleFileLoop e f (tune # tunes) w = singleFileLoop e f tunes ?w"
    using Cons.prems by (rule single_iteration)
  also have "\<dots> = ?w\<lparr>files := (files ?w)(f \<mapsto>
      ?b @ concat (map (\<lambda>t. abcBlock (unicodeLower e) t @ newline) tunes))\<rparr>"
    by (rule Cons.IH) simp
  also have "\<dots> = w\<lparr>files := (files w)(f \<mapsto>
      bytes @ concat (map (\<lambda>t. abcBlock (unicodeLower e) t @ newline) (tune # tunes)))\<rparr>"
    by simp
  finally show ?case .
qed

lemma multiple_iteration_created:
  assumes "osCreate e w (filepathJoin e outputDir (abcFileName tune)) = None"
  shows "multipleFilesLoop e outputDir (tune # tunes) i (processed, w) =
    multipleFilesLoop e outputDir tunes (i + 1)
      (processed + 1,
       (if (i + 1) mod 100 = 0 then Printf (ProcessedTunes (i + 1)) else id)
         (w\<lparr>files := (files w)(filepathJoin e outputDir (abcFileName tune) \<mapsto>
               abcBlock (unicodeLower e) tune)\<rparr>))"
proof -
  show ?thesis
    using assms
    by (simp add: abcFileName_def Let_def Fprintln_def Fprintf_open created_def
        abcBlock_def abcLines_def)
qed

lemma multiple_iteration_failed:
  assumes "osCreate e w (filepathJoin e outputDir (abcFileName tune)) = Some err"
  shows "multipleFilesLoop e outputDir (tune # tunes) i (processed, w) =
    multipleFilesLoop e outputDir tunes (i + 1)
      (processed,
       Printf (ErrorCreatingOutputFileAt (filepathJoin e outputDir (abcFileName tune)) err) w)"
  using assms by (simp add: abcFileName_def)

text \<open>From here on the loops are unfolded by the lemmas above only.\<close>

declare singleFileLoop.simps(2) [simp del]
declare multipleFilesLoop.simps(2) [simp del]

lemma skipped_append: "skipped (ps @ qs) = skipped ps + skipped qs"
  by (induction ps rule: skipped.induct) simp_all

lemma multipleFilesLoop_stdout:
  "\<exists>log. stdout (snd (multipleFilesLoop e outputDir tunes i (n, w))) = stdout w @ log \<and>
     fst (multipleFilesLoop e outputDir tunes i (n, w)) + skipped log = n + length tunes"
proof (induction tunes arbitrary: i n w)
  case Nil
  then show ?case by simp
next
  case (Cons tune tunes)
  let ?f = "filepathJoin e outputDir (abcFileName tune)"
  show ?case
  proof (cases "osCreate e w ?f")
    case None
    let ?w = "(if (i + 1) mod 100 = 0 then Printf (ProcessedTunes (i + 1)) else id)
      (w\<lparr>files := (files w)(?f \<mapsto> abcBlock (unicodeLower e) tune)\<rparr>)"
    have step: "multipleFilesLoop e outputDir (tune # tunes) i (n, w) =
        multipleFilesLoop e outputDir tunes (i + 1) (n + 1, ?w)"
      using None by (rule multiple_iteration_created)
    obtain pre where pre: "stdout ?w = stdout w @ pre" "skipped pre = 0"
      by (cases "(i + 1) mod 100 = 0") (simp_all add: Printf_def)
    from Cons.IH [of "i + 1" "n + 1" ?w] obtain log where
      log: "stdout (snd (multipleFilesLoop e outputDir tunes (i + 1) (n + 1, ?w))) = stdout ?w @ log"
        "fst (multipleFilesLoop e outputDir tunes (i + 1) (n + 1, ?w)) + skipped log
          = n + 1 + length tunes"
      by blast
    have "stdout (snd (multipleFilesLoop e outputDir (tune # tunes) i (n, w))) = stdout w @ (pre @ log)"
      using log(1) pre(1) by (simp only: step append_assoc)
    moreover have "fst (multipleFilesLoop e outputDir (tune # tunes) i (n, w)) + skipped (pre @ log)
        = n + length (tune # tunes)"
      using log(2) pre(2) by (simp only: step skipped_append) simp
    ultimately show ?thesis by blast
  next
    case (Some err)
    let ?w = "Printf (ErrorCreatingOutputFileAt ?f err) w"
    have step: "multipleFilesLoop e outputDir (tune # tunes) i (n, w) =
        multipleFilesLoop e outputDir tunes (i + 1) (n, ?w)"
      using Some by (rule multiple_iteration_failed)
    have pre: "stdout ?w = stdout w @ [ErrorCreatingOutputFileAt ?f err]"
      by (simp add: Printf_def)
    from Cons.IH [of "i + 1" n ?w] obtain log where
      log: "stdout (snd (multipleFilesLoop e outputDir tunes (i + 1) (n, ?w))) = stdout ?w @ log"
        "fst (multipleFilesLoop e outputDir tunes (i + 1) (n, ?w)) + skipped log = n + length tunes"
      by blast
    have "stdout (snd (multipleFilesLoop e outputDir (tune # tunes) i (n, w)))
        = stdout w @ (ErrorCreatingOutputFileAt ?f err # log)"
      using log(1) pre by (simp only: step) simp
    moreover have "fst (multipleFilesLoop e outputDir (tune # tunes) i (n, w))
        + skipped (ErrorCreatingOutputFileAt ?f err # log) = n + length (tune # tunes)"
      using log(2) by (simp only: step) simp
    ultimately show ?thesis by blast
  qed
qed

lemma multipleFilesLoop_files:
  "files (snd (multipleFilesLoop e outputDir tunes i (n, w))) p \<noteq> files w p
    \<Longrightarrow> p \<in> (\<lambda>t. filepathJoin e outputDir (abcFileName t)) ` set tunes"
proof (induction tunes arbitrary: i n w)
  case Nil
  then show ?case by simp
next
  case (Cons tune tunes)
  let ?f = "filepathJoin e outputDir (abcFileName tune)"
  show ?case
  proof (cases "osCreate e w ?f")
    case None
    let ?w = "(if (i + 1) mod 100 = 0 then Printf (ProcessedTunes (i + 1)) else id)
      (w\<lparr>files := (files w)(?f \<mapsto> abcBlock (unicodeLower e) tune)\<rparr>)"
    have step: "multipleFilesLoop e outputDir (tune # tunes) i (n, w) =
        multipleFilesLoop e outputDir tunes (i + 1) (n + 1, ?w)"
      using None by (rule multiple_iteration_created)
    have here: "files ?w p = files w p" if "p \<noteq> ?f"
      using that by (simp add: Printf_def)
    show ?thesis
    proof (cases "p = ?f")
      case True
      then show ?thesis by simp
    next
      case False
      from Cons.prems have "files (snd (multipleFilesLoop e outputDir tunes (i + 1) (n + 1, ?w))) p
          \<noteq> files w p"
        by (simp only: step not_False_eq_True)
      then have "files (snd (multipleFilesLoop e outputDir tunes (i + 1) (n + 1, ?w))) p
          \<noteq> files ?w p"
        by (simp only: here [OF False] not_False_eq_True)
      from Cons.IH [OF this] show ?thesis by auto
    qed
  next
    case (Some err)
    let ?w = "Printf (ErrorCreatingOutputFileAt ?f err) w"
    have step: "multipleFilesLoop e outputDir (tune # tunes) i (n, w) =
        multipleFilesLoop e outputDir tunes (i + 1) (n, ?w)"
      using Some by (rule multiple_iteration_failed)
    have here: "files ?w p = files w p" by (simp add: Printf_def)
    from Cons.prems have "files (snd (multipleFilesLoop e outputDir tunes (i + 1) (n, ?w))) p
        \<noteq> files w p"
      by (simp only: step not_False_eq_True)
    then have "files (snd (multipleFilesLoop e outputDir tunes (i + 1) (n, ?w))) p
        \<noteq> files ?w p"
      by (simp only: here not_False_eq_True)
    from Cons.IH [OF this] show ?thesis by auto
  qed
qed

text \<open>
  The loop over a list that is split in two, and the file of one tune after the whole
  run.
\<close>

lemma multipleFilesLoop_append:
  "multipleFilesLoop e outputDir (pre @ post) i (n, w) =
     multipleFilesLoop e outputDir post (i + length pre) (multipleFilesLoop e outputDir pre i (n, w))"
proof (induction pre arbitrary: i n w)
  case Nil
  then show ?case by simp
next
  case (Cons tune pre)
  let ?f = "filepathJoin e outputDir (abcFileName tune)"
  show ?case
  proof (cases "osCreate e w ?f")
    case None
    show ?thesis
      unfolding append_Cons multiple_iteration_created [OF None] Cons.IH by simp
  next
    case (Some err)
    show ?thesis
      unfolding append_Cons multiple_iteration_failed [OF Some] Cons.IH by simp
  qed
qed

lemma multipleFilesLoop_other_file:
  "p \<notin> (\<lambda>t. filepathJoin e outputDir (abcFileName t)) ` set tunes
    \<Longrightarrow> files (snd (multipleFilesLoop e outputDir tunes i (n, w))) p = files w p"
  using multipleFilesLoop_files [of e outputDir tunes i n w p] by blast

lemma multipleFilesLoop_tune_file:
  assumes ok: "osCreate e (snd (multipleFilesLoop e outputDir pre 0 (0, w)))
      (filepathJoin e outputDir (abcFileName tune)) = None"
    and later: "filepathJoin e outputDir (abcFileName tune)
      \<notin> (\<lambda>t. filepathJoin e outputDir (abcFileName t)) ` set post"
  shows "files (outputToMultipleFiles e (pre @ tune # post) outputDir w)
      (filepathJoin e outputDir (abcFileName tune)) = Some (abcBlock (unicodeLower e) tune)"
proof -
  let ?f = "filepathJoin e outputDir (abcFileName tune)"
  obtain n1 w1 where r1: "multipleFilesLoop e outputDir pre 0 (0, w) = (n1, w1)"
    by (cases "multipleFilesLoop e outputDir pre 0 (0, w)")
  from ok r1 have ok1: "osCreate e w1 ?f = None" by simp
  let ?w2 = "(if (length pre + 1) mod 100 = 0 then Printf (ProcessedTunes (length pre + 1)) else id)
    (w1\<lparr>files := (files w1)(?f \<mapsto> abcBlock (unicodeLower e) tune)\<rparr>)"
  have w2: "files ?w2 ?f = Some (abcBlock (unicodeLower e) tune)"
    by (simp add: Printf_def)
  have "multipleFilesLoop e outputDir (pre @ tune # post) 0 (0, w) =
      multipleFilesLoop e outputDir post (length pre + 1) (n1 + 1, ?w2)"
    using multiple_iteration_created [OF ok1, of post "length pre" n1]
    by (simp add: multipleFilesLoop_append r1)
  then have "files (snd (multipleFilesLoop e outputDir (pre @ tune # post) 0 (0, w))) ?f
      = files ?w2 ?f"
    using multipleFilesLoop_other_file [OF later, of "length pre + 1" "n1 + 1" ?w2] by simp
  then show ?thesis
    by (simp only: w2) (simp add: outputToMultipleFiles_def split_beta Printf_def)
qed

section \<open>Properties of the renderer and the output writer\<close>

subsection \<open>An environment for concrete runs\<close>

text \<open>
  A small environment to run the program in: only ASCII text is lowercased, paths are
  joined with a slash, a file is readable when it exists, the JSON grammar is cut down to
  the texts \<^verbatim>\<open>null\<close> and \<^verbatim>\<open>[{},{}]\<close>, keys are folded bytewise, the output directory
  exists, and every file can be created but \<^verbatim>\<open>out/2_B.abc\<close>.
\<close>

definition demo_env :: env where
  "demo_env =
     \<lparr>unicodeLower = id,
      filepathJoin = (\<lambda>dir file. dir @ ''/'' @ file),
      ioutilReadFile = (\<lambda>w path. case files w path of
                          None \<Rightarrow> Inl (OSError ''no such file or directory'')
                        | Some data \<Rightarrow> Inr data),
      jsonSyntax = (\<lambda>data. if data = ''null'' then Some JNull
                      else if data = ''[{},{}]'' then Some (JArray [JObject [], JObject []])
                      else None),
      jsonFoldName = map lowerByte,
      osStatIsNotExist = (\<lambda>dir. False),
      osMkdirAll = (\<lambda>dir. None),
      osCreate = (\<lambda>w path. if path = ''out/2_B.abc'' then Some (OSError ''permission denied'')
                    else None)\<rparr>"

definition empty_world :: world where
  "empty_world = \<lparr>files = Map.empty, stdout = [], stderr = []\<rparr>"

definition tune_A :: Tune where
  "tune_A = \<lparr>TuneID = ''10'', SettingID = ''1'', Name = ''A'', Type = ''reel'', Meter = ''4/4'',
     Mode = ''Gmajor'', ABC = ''|:GABc:|'', Date = ''2020-01-02'', Username = ''ann''\<rparr>"

definition tune_B :: Tune where
  "tune_B = \<lparr>TuneID = ''20'', SettingID = ''2'', Name = ''B'', Type = ''jig'', Meter = ''6/8'',
     Mode = ''Edorian'', ABC = ''|:EFG:|'', Date = [], Username = []\<rparr>"

definition tune_C :: Tune where
  "tune_C = \<lparr>TuneID = ''30'', SettingID = ''3'', Name = ''C/D'', Type = ''reel'', Meter = ''4/4'',
     Mode = ''Aminor'', ABC = ''|:ABc:|'', Date = [], Username = ''cat''\<rparr>"

text \<open>
  C4. For every tune the renderer emits exactly the lines \<^verbatim>\<open>X:<setting_id>\<close>, \<^verbatim>\<open>T:<name>\<close>,
  \<^verbatim>\<open>R:<type>\<close>, \<^verbatim>\<open>M:<meter>\<close>, \<^verbatim>\<open>K:<normalized mode>\<close> in that order, then a
  \<^verbatim>\<open>Z:<username>\<close> line if and only if the username is not empty, then an
  \<^verbatim>\<open>H:Added <date>\<close> line if and only if the date is not empty, then the body as it is; an
  empty field leaves nothing after its prefix. This holds for every tune of the input, in
  both writers. In multi-file mode, at any point of the loop a tune whose file is created
  gets exactly this block as its file, and at the end of the run the file of every such
  tune, wherever it stands in the input, holds exactly its block unless a later tune has
  the same path. In single-file mode every iteration appends the block and the blank
  separator line, so the file holds the blocks of all tunes.
\<close>

theorem abc_block_rendered:
  "(osCreate e w (filepathJoin e outputDir (abcFileName tune)) = None \<longrightarrow>
      multipleFilesLoop e outputDir (tune # rest) i (n, w) =
        multipleFilesLoop e outputDir rest (i + 1)
          (n + 1,
           (if (i + 1) mod 100 = 0 then Printf (ProcessedTunes (i + 1)) else id)
             (w\<lparr>files := (files w)(filepathJoin e outputDir (abcFileName tune) \<mapsto>
                   abcBlock (unicodeLower e) tune)\<rparr>))) \<and>
   (osCreate e (snd (multipleFilesLoop e outputDir pre 0 (0, w)))
      (filepathJoin e outputDir (abcFileName tune)) = None \<and>
    filepathJoin e outputDir (abcFileName tune)
      \<notin> (\<lambda>t. filepathJoin e outputDir (abcFileName t)) ` set post \<longrightarrow>
      files (outputToMultipleFiles e (pre @ tune # post) outputDir w)
        (filepathJoin e outputDir (abcFileName tune)) = Some (abcBlock (unicodeLower e) tune)) \<and>
   (files w f = Some bytes \<longrightarrow>
      singleFileLoop e f (tune # rest) w =
        singleFileLoop e f rest
          (w\<lparr>files := (files w)(f \<mapsto> bytes @ abcBlock (unicodeLower e) tune @ newline)\<rparr>)) \<and>
   (osCreate e w (filepathJoin e outputDir fileName) = None \<longrightarrow>
      files (snd (outputToSingleFile e tunes outputDir fileName w))
        (filepathJoin e outputDir fileName) =
        Some (concat (map (\<lambda>t. abcBlock (unicodeLower e) t @ newline) tunes))) \<and>
   abcBlock ul tune =
     ''X:'' @ SettingID tune @ newline @
     ''T:'' @ Name tune @ newline @
     ''R:'' @ Type tune @ newline @
     ''M:'' @ Meter tune @ newline @
     ''K:'' @ modeToBetter ul (Mode tune) @ newline @
     (if Username tune \<noteq> [] then ''Z:'' @ Username tune @ newline else []) @
     (if Date tune \<noteq> [] then ''H:Added '' @ Date tune @ newline else []) @
     ABC tune @ newline"
proof (intro conjI impI)
  assume "osCreate e w (filepathJoin e outputDir (abcFileName tune)) = None"
  then show "multipleFilesLoop e outputDir (tune # rest) i (n, w) =
        multipleFilesLoop e outputDir rest (i + 1)
          (n + 1,
           (if (i + 1) mod 100 = 0 then Printf (ProcessedTunes (i + 1)) else id)
             (w\<lparr>files := (files w)(filepathJoin e outputDir (abcFileName tune) \<mapsto>
                   abcBlock (unicodeLower e) tune)\<rparr>))"
    by (rule multiple_iteration_created)
next
  assume "osCreate e (snd (multipleFilesLoop e outputDir pre 0 (0, w)))
      (filepathJoin e outputDir (abcFileName tune)) = None \<and>
    filepathJoin e outputDir (abcFileName tune)
      \<notin> (\<lambda>t. filepathJoin e outputDir (abcFileName t)) ` set post"
  then show "files (outputToMultipleFiles e (pre @ tune # post) outputDir w)
        (filepathJoin e outputDir (abcFileName tune)) = Some (abcBlock (unicodeLower e) tune)"
    by (simp add: multipleFilesLoop_tune_file)
next
  assume "files w f = Some bytes"
  then show "singleFileLoop e f (tune # rest) w =
        singleFileLoop e f rest
          (w\<lparr>files := (files w)(f \<mapsto> bytes @ abcBlock (unicodeLower e) tune @ newline)\<rparr>)"
    by (rule single_iteration)
next
  assume ok: "osCreate e w (filepathJoin e outputDir fileName) = None"
  have "files (created (filepathJoin e outputDir fileName) w) (filepathJoin e outputDir fileName)
      = Some []"
    by (simp add: created_def)
  from singleFileLoop_files [OF this, of e tunes] ok
  show "files (snd (outputToSingleFile e tunes outputDir fileName w))
      (filepathJoin e outputDir fileName)
      = Some (concat (map (\<lambda>t. abcBlock (unicodeLower e) t @ newline) tunes))"
    by (simp add: outputToSingleFile_def Printf_def Let_def)
next
  show "abcBlock ul tune =
     ''X:'' @ SettingID tune @ newline @
     ''T:'' @ Name tune @ newline @
     ''R:'' @ Type tune @ newline @
     ''M:'' @ Meter tune @ newline @
     ''K:'' @ modeToBetter ul (Mode tune) @ newline @
     (if Username tune \<noteq> [] then ''Z:'' @ Username tune @ newline else []) @
     (if Date tune \<noteq> [] then ''H:Added '' @ Date tune @ newline else []) @
     ABC tune @ newline"
    by (simp add: abcBlock_def abcLines_def)
qed

text \<open>
  C4 at three tunes in multi-file mode, of which the second has a username, no date and
  a name that is sanitized, and the third cannot be created; and in single-file mode at a
  tune without username and date followed by the tune whose fields are all empty.
\<close>

theorem abc_block_rendered_witness:
  "osCreate demo_env empty_world (filepathJoin demo_env ''out'' (abcFileName tune_A)) = None \<and>
   multipleFilesLoop demo_env ''out'' [tune_A, tune_C] 0 (0, empty_world) =
     multipleFilesLoop demo_env ''out'' [tune_C] 1
       (1, empty_world\<lparr>files := (files empty_world)(''out/1_A.abc'' \<mapsto>
             ''X:1'' @ newline @ ''T:A'' @ newline @ ''R:reel'' @ newline @ ''M:4/4'' @ newline @
             ''K:g'' @ newline @ ''Z:ann'' @ newline @ ''H:Added 2020-01-02'' @ newline @
             ''|:GABc:|'' @ newline)\<rparr>) \<and>
   (osCreate demo_env (snd (multipleFilesLoop demo_env ''out'' [tune_A] 0 (0, empty_world)))
      (filepathJoin demo_env ''out'' (abcFileName tune_C)) = None \<and>
    filepathJoin demo_env ''out'' (abcFileName tune_C)
      \<notin> (\<lambda>t. filepathJoin demo_env ''out'' (abcFileName t)) ` set [tune_B]) \<and>
   files (outputToMultipleFiles demo_env [tune_A, tune_C, tune_B] ''out'' empty_world)
     ''out/3_C_D.abc''
     = Some (''X:3'' @ newline @ ''T:C/D'' @ newline @ ''R:reel'' @ newline @ ''M:4/4'' @ newline @
         ''K:am'' @ newline @ ''Z:cat'' @ newline @ ''|:ABc:|'' @ newline) \<and>
   files (created ''f'' empty_world) ''f'' = Some [] \<and>
   singleFileLoop demo_env ''f'' [zeroTune] (created ''f'' empty_world) =
     singleFileLoop demo_env ''f'' []
       (created ''f'' empty_world\<lparr>files := (files (created ''f'' empty_world))(''f'' \<mapsto>
          ''X:'' @ newline @ ''T:'' @ newline @ ''R:'' @ newline @ ''M:'' @ newline @
          ''K:'' @ newline @ newline @ newline)\<rparr>) \<and>
   osCreate demo_env empty_world (filepathJoin demo_env ''out'' ''all_tunes.abc'') = None \<and>
   files (snd (outputToSingleFile demo_env [tune_B, zeroTune] ''out'' ''all_tunes.abc'' empty_world))
     ''out/all_tunes.abc''
     = Some (''X:2'' @ newline @ ''T:B'' @ newline @ ''R:jig'' @ newline @ ''M:6/8'' @ newline @
         ''K:e dor'' @ newline @ ''|:EFG:|'' @ newline @ newline @
         ''X:'' @ newline @ ''T:'' @ newline @ ''R:'' @ newline @ ''M:'' @ newline @
         ''K:'' @ newline @ newline @ newline)"
proof -
  have pa: "filepathJoin demo_env ''out'' (abcFileName tune_A) = ''out/1_A.abc''"
    by (simp add: demo_env_def abcFileName_def tune_A_def sanitizeFileName_eq underscored_def)
  have pc: "filepathJoin demo_env ''out'' (abcFileName tune_C) = ''out/3_C_D.abc''"
    by (simp add: demo_env_def abcFileName_def tune_C_def sanitizeFileName_eq underscored_def)
  have pb: "filepathJoin demo_env ''out'' (abcFileName tune_B) = ''out/2_B.abc''"
    by (simp add: demo_env_def abcFileName_def tune_B_def sanitizeFileName_eq underscored_def)
  have ps: "filepathJoin demo_env ''out'' ''all_tunes.abc'' = ''out/all_tunes.abc''"
    by (simp add: demo_env_def)
  have cr: "osCreate demo_env w p = None" if "p \<noteq> ''out/2_B.abc''" for w p
    using that by (simp add: demo_env_def)
  have ul: "unicodeLower demo_env = id" by (simp add: demo_env_def)
  have ba: "abcBlock id tune_A =
      ''X:1'' @ newline @ ''T:A'' @ newline @ ''R:reel'' @ newline @ ''M:4/4'' @ newline @
      ''K:g'' @ newline @ ''Z:ann'' @ newline @ ''H:Added 2020-01-02'' @ newline @
      ''|:GABc:|'' @ newline"
    by code_simp
  have bc: "abcBlock id tune_C =
      ''X:3'' @ newline @ ''T:C/D'' @ newline @ ''R:reel'' @ newline @ ''M:4/4'' @ newline @
      ''K:am'' @ newline @ ''Z:cat'' @ newline @ ''|:ABc:|'' @ newline"
    by code_simp
  have bz: "[] @ abcBlock id zeroTune @ newline =
      ''X:'' @ newline @ ''T:'' @ newline @ ''R:'' @ newline @ ''M:'' @ newline @
      ''K:'' @ newline @ newline @ newline"
    by code_simp
  have bs: "concat (map (\<lambda>t. abcBlock id t @ newline) [tune_B, zeroTune]) =
      ''X:2'' @ newline @ ''T:B'' @ newline @ ''R:jig'' @ newline @ ''M:6/8'' @ newline @
      ''K:e dor'' @ newline @ ''|:EFG:|'' @ newline @ newline @
      ''X:'' @ newline @ ''T:'' @ newline @ ''R:'' @ newline @ ''M:'' @ newline @
      ''K:'' @ newline @ newline @ newline"
    by code_simp
  have h1: "osCreate demo_env empty_world (filepathJoin demo_env ''out'' (abcFileName tune_A)) = None"
    unfolding pa by (rule cr) simp
  have h2: "osCreate demo_env (snd (multipleFilesLoop demo_env ''out'' [tune_A] 0 (0, empty_world)))
      (filepathJoin demo_env ''out'' (abcFileName tune_C)) = None \<and>
    filepathJoin demo_env ''out'' (abcFileName tune_C)
      \<notin> (\<lambda>t. filepathJoin demo_env ''out'' (abcFileName t)) ` set [tune_B]"
    unfolding pc by (simp add: cr pb)
  have h3: "files (created ''f'' empty_world) ''f'' = Some []" by (simp add: created_def)
  have h4: "osCreate demo_env empty_world (filepathJoin demo_env ''out'' ''all_tunes.abc'') = None"
    unfolding ps by (rule cr) simp
  note t1 = abc_block_rendered [where e = demo_env and w = empty_world and outputDir = "''out''"
      and tune = tune_A and rest = "[tune_C]" and i = 0 and n = 0]
  have c1: "multipleFilesLoop demo_env ''out'' [tune_A, tune_C] 0 (0, empty_world) =
     multipleFilesLoop demo_env ''out'' [tune_C] 1
       (1, empty_world\<lparr>files := (files empty_world)(''out/1_A.abc'' \<mapsto>
             ''X:1'' @ newline @ ''T:A'' @ newline @ ''R:reel'' @ newline @ ''M:4/4'' @ newline @
             ''K:g'' @ newline @ ''Z:ann'' @ newline @ ''H:Added 2020-01-02'' @ newline @
             ''|:GABc:|'' @ newline)\<rparr>)"
    using t1 [THEN conjunct1] h1 unfolding pa ul ba by simp
  note t2 = abc_block_rendered [where e = demo_env and w = empty_world and outputDir = "''out''"
      and tune = tune_C and pre = "[tune_A]" and post = "[tune_B]"]
  have c2: "files (outputToMultipleFiles demo_env [tune_A, tune_C, tune_B] ''out'' empty_world)
     ''out/3_C_D.abc''
     = Some (''X:3'' @ newline @ ''T:C/D'' @ newline @ ''R:reel'' @ newline @ ''M:4/4'' @ newline @
         ''K:am'' @ newline @ ''Z:cat'' @ newline @ ''|:ABc:|'' @ newline)"
    using t2 [THEN conjunct2, THEN conjunct1] h2 unfolding pc ul bc by simp
  note t3 = abc_block_rendered [where e = demo_env and w = "created ''f'' empty_world"
      and f = "''f''" and bytes = "[]" and tune = zeroTune and rest = "[]"]
  have c3: "singleFileLoop demo_env ''f'' [zeroTune] (created ''f'' empty_world) =
     singleFileLoop demo_env ''f'' []
       (created ''f'' empty_world\<lparr>files := (files (created ''f'' empty_world))(''f'' \<mapsto>
          ''X:'' @ newline @ ''T:'' @ newline @ ''R:'' @ newline @ ''M:'' @ newline @
          ''K:'' @ newline @ newline @ newline)\<rparr>)"
    using t3 [THEN conjunct2, THEN conjunct2, THEN conjunct1] h3 unfolding ul bz by blast
  note t4 = abc_block_rendered [where e = demo_env and w = empty_world and outputDir = "''out''"
      and fileName = "''all_tunes.abc''" and tunes = "[tune_B, zeroTune]"]
  have c4: "files (snd (outputToSingleFile demo_env [tune_B, zeroTune] ''out'' ''all_tunes.abc''
      empty_world)) ''out/all_tunes.abc''
     = Some (''X:2'' @ newline @ ''T:B'' @ newline @ ''R:jig'' @ newline @ ''M:6/8'' @ newline @
         ''K:e dor'' @ newline @ ''|:EFG:|'' @ newline @ newline @
         ''X:'' @ newline @ ''T:'' @ newline @ ''R:'' @ newline @ ''M:'' @ newline @
         ''K:'' @ newline @ newline @ newline)"
    using t4 [THEN conjunct2, THEN conjunct2, THEN conjunct2, THEN conjunct1] h4
    unfolding ps ul bs by blast
  from h1 c1 h2 c2 h3 c3 h4 c4 show ?thesis by blast
qed

text \<open>
  C5. Single-file mode, once its file is created, writes the blocks of all tunes into that
  one file in input order, each followed by one empty line, so that consecutive blocks
  are separated by exactly one blank line; it changes no other file and reports the
  number of tunes. In particular the file for two tunes holds the block of the first, a
  blank line, the block of the second and a blank line.
\<close>

theorem single_file_contents:
  assumes "osCreate e w (filepathJoin e outputDir fileName) = None"
  shows "outputToSingleFile e tunes outputDir fileName w =
       (Returned,
        w\<lparr>files := (files w)(filepathJoin e outputDir fileName \<mapsto>
               concat (map (\<lambda>tune. abcBlock (unicodeLower e) tune @ newline) tunes)),
          stdout := stdout w @
               [SuccessfullyWroteTo (length tunes) (filepathJoin e outputDir fileName)]\<rparr>) \<and>
     files (snd (outputToSingleFile e [tune1, tune2] outputDir fileName w))
         (filepathJoin e outputDir fileName) =
       Some (abcBlock (unicodeLower e) tune1 @ newline @ abcBlock (unicodeLower e) tune2 @ newline)"
proof -
  let ?f = "filepathJoin e outputDir fileName"
  have opened: "files (created ?f w) ?f = Some []" by (simp add: created_def)
  have run: "outputToSingleFile e ts outputDir fileName w =
       (Returned,
        w\<lparr>files := (files w)(?f \<mapsto> concat (map (\<lambda>tune. abcBlock (unicodeLower e) tune @ newline) ts)),
          stdout := stdout w @ [SuccessfullyWroteTo (length ts) ?f]\<rparr>)" for ts
    using assms singleFileLoop_files [OF opened, of e ts]
    by (simp add: outputToSingleFile_def Let_def Printf_def created_def)
  show ?thesis
    by (simp add: run)
qed

text \<open>
  C5 at two tunes with \<^verbatim>\<open>setting_id\<close> 1, name A and \<^verbatim>\<open>setting_id\<close> 2, name B.
\<close>

theorem single_file_contents_witness:
  "osCreate demo_env empty_world (filepathJoin demo_env ''out'' ''all_tunes.abc'') = None \<and>
   files (snd (outputToSingleFile demo_env [tune_A, tune_B] ''out'' ''all_tunes.abc'' empty_world))
     ''out/all_tunes.abc''
     = Some (''X:1'' @ newline @ ''T:A'' @ newline @ ''R:reel'' @ newline @ ''M:4/4'' @ newline @
         ''K:g'' @ newline @ ''Z:ann'' @ newline @ ''H:Added 2020-01-02'' @ newline @
         ''|:GABc:|'' @ newline @
         newline @
         ''X:2'' @ newline @ ''T:B'' @ newline @ ''R:jig'' @ newline @ ''M:6/8'' @ newline @
         ''K:e dor'' @ newline @ ''|:EFG:|'' @ newline @
         newline) \<and>
   stdout (snd (outputToSingleFile demo_env [tune_A, tune_B] ''out'' ''all_tunes.abc'' empty_world))
     = [SuccessfullyWroteTo 2 ''out/all_tunes.abc'']"
proof -
  have h: "osCreate demo_env empty_world (filepathJoin demo_env ''out'' ''all_tunes.abc'') = None"
    by (simp add: demo_env_def)
  have p: "filepathJoin demo_env ''out'' ''all_tunes.abc'' = ''out/all_tunes.abc''"
    by (simp add: demo_env_def)
  have b: "abcBlock (unicodeLower demo_env) tune_A @ newline @
      abcBlock (unicodeLower demo_env) tune_B @ newline =
      ''X:1'' @ newline @ ''T:A'' @ newline @ ''R:reel'' @ newline @ ''M:4/4'' @ newline @
         ''K:g'' @ newline @ ''Z:ann'' @ newline @ ''H:Added 2020-01-02'' @ newline @
         ''|:GABc:|'' @ newline @
         newline @
         ''X:2'' @ newline @ ''T:B'' @ newline @ ''R:jig'' @ newline @ ''M:6/8'' @ newline @
         ''K:e dor'' @ newline @ ''|:EFG:|'' @ newline @
         newline"
    by code_simp
  note run = single_file_contents [OF h, where tunes = "[tune_A, tune_B]" and ?tune1.0 = tune_A
      and ?tune2.0 = tune_B]
  have c1: "files (snd (outputToSingleFile demo_env [tune_A, tune_B] ''out'' ''all_tunes.abc''
      empty_world)) ''out/all_tunes.abc''
      = Some (abcBlock (unicodeLower demo_env) tune_A @ newline @
          abcBlock (unicodeLower demo_env) tune_B @ newline)"
    using run [THEN conjunct2] by (simp only: p)
  have c2: "stdout (snd (outputToSingleFile demo_env [tune_A, tune_B] ''out'' ''all_tunes.abc''
      empty_world)) = [SuccessfullyWroteTo 2 ''out/all_tunes.abc'']"
    using run [THEN conjunct1] by (simp add: p empty_world_def)
  show ?thesis
    using h c1 c2 by (simp only: b)
qed

text \<open>
  C6. For every sequence of N tunes, multi-file mode changes or creates files only at the
  paths \<^verbatim>\<open><setting_id>_<sanitized name>.abc\<close> of its tunes under the output directory,
  hence at most N files; its last message reports a count of written tunes that is at
  most N, and this count and the number of tunes logged as failed add up to N, so every
  tune is either written or logged; a tune whose file cannot be created is logged and
  skipped, the count stays, and the loop goes on with the remaining tunes.
\<close>

theorem multiple_files_outcome:
  "{p. files (outputToMultipleFiles e tunes outputDir w) p \<noteq> files w p}
     \<subseteq> (\<lambda>tune. filepathJoin e outputDir (abcFileName tune)) ` set tunes \<and>
   card {p. files (outputToMultipleFiles e tunes outputDir w) p \<noteq> files w p} \<le> length tunes \<and>
   (\<exists>processed log.
      stdout (outputToMultipleFiles e tunes outputDir w)
        = stdout w @ log @ [SuccessfullyWroteIndividual processed outputDir] \<and>
      processed \<le> length tunes \<and>
      processed + skipped log = length tunes) \<and>
   (osCreate e w (filepathJoin e outputDir (abcFileName tune)) = Some err \<longrightarrow>
      multipleFilesLoop e outputDir (tune # rest) i (n, w) =
        multipleFilesLoop e outputDir rest (i + 1)
          (n, Printf (ErrorCreatingOutputFileAt (filepathJoin e outputDir (abcFileName tune)) err) w))"
proof -
  let ?r = "multipleFilesLoop e outputDir tunes 0 (0, w)"
  let ?w' = "outputToMultipleFiles e tunes outputDir w"
  let ?paths = "(\<lambda>tune. filepathJoin e outputDir (abcFileName tune)) ` set tunes"
  have out: "?w' = Printf (SuccessfullyWroteIndividual (fst ?r) outputDir) (snd ?r)"
    by (simp add: outputToMultipleFiles_def split_beta)
  have "files ?w' p = files (snd ?r) p" for p
    by (simp add: out Printf_def)
  then have sub: "{p. files ?w' p \<noteq> files w p} \<subseteq> ?paths"
    using multipleFilesLoop_files [of e outputDir tunes 0 0 w] by auto
  have "card {p. files ?w' p \<noteq> files w p} \<le> card ?paths"
    using sub by (intro card_mono) simp_all
  also have "\<dots> \<le> card (set tunes)" by (rule card_image_le) simp
  also have "\<dots> \<le> length tunes" by (rule card_length)
  finally have count: "card {p. files ?w' p \<noteq> files w p} \<le> length tunes" .
  obtain log where log: "stdout (snd ?r) = stdout w @ log" "fst ?r + skipped log = 0 + length tunes"
    using multipleFilesLoop_stdout [of e outputDir tunes 0 0 w] by blast
  have "stdout ?w' = stdout w @ log @ [SuccessfullyWroteIndividual (fst ?r) outputDir]"
    by (simp add: out Printf_def log(1))
  moreover have "fst ?r \<le> length tunes" using log(2) by simp
  moreover have "fst ?r + skipped log = length tunes" using log(2) by simp
  ultimately have report: "\<exists>processed log.
      stdout ?w' = stdout w @ log @ [SuccessfullyWroteIndividual processed outputDir] \<and>
      processed \<le> length tunes \<and> processed + skipped log = length tunes"
    by blast
  have skip: "osCreate e w (filepathJoin e outputDir (abcFileName tune)) = Some err \<longrightarrow>
      multipleFilesLoop e outputDir (tune # rest) i (n, w) =
        multipleFilesLoop e outputDir rest (i + 1)
          (n, Printf (ErrorCreatingOutputFileAt (filepathJoin e outputDir (abcFileName tune)) err) w)"
    by (simp add: multiple_iteration_failed)
  from sub count report skip show ?thesis by (intro conjI)
qed

text \<open>
  C6 at two tunes of which the first cannot be created: it is logged, the second is
  written, and the reported count is 1.
\<close>

theorem multiple_files_outcome_witness:
  "osCreate demo_env empty_world (filepathJoin demo_env ''out'' (abcFileName tune_B))
     = Some (OSError ''permission denied'') \<and>
   multipleFilesLoop demo_env ''out'' [tune_B, tune_A] 0 (0, empty_world) =
     multipleFilesLoop demo_env ''out'' [tune_A] 1
       (0, Printf (ErrorCreatingOutputFileAt ''out/2_B.abc'' (OSError ''permission denied''))
             empty_world) \<and>
   stdout (outputToMultipleFiles demo_env [tune_B, tune_A] ''out'' empty_world)
     = [ErrorCreatingOutputFileAt ''out/2_B.abc'' (OSError ''permission denied''),
        SuccessfullyWroteIndividual 1 ''out''] \<and>
   files (outputToMultipleFiles demo_env [tune_B, tune_A] ''out'' empty_world) ''out/2_B.abc'' = None \<and>
   files (outputToMultipleFiles demo_env [tune_B, tune_A] ''out'' empty_world) ''out/1_A.abc''
     = Some (abcBlock id tune_A)"
proof -
  have h: "osCreate demo_env empty_world (filepathJoin demo_env ''out'' (abcFileName tune_B))
      = Some (OSError ''permission denied'')"
    by (simp add: demo_env_def abcFileName_def tune_B_def sanitizeFileName_eq underscored_def)
  have p: "filepathJoin demo_env ''out'' (abcFileName tune_B) = ''out/2_B.abc''"
    by (simp add: demo_env_def abcFileName_def tune_B_def sanitizeFileName_eq underscored_def)
  have s: "multipleFilesLoop demo_env ''out'' [tune_B, tune_A] 0 (0, empty_world) =
     multipleFilesLoop demo_env ''out'' [tune_A] 1
       (0, Printf (ErrorCreatingOutputFileAt ''out/2_B.abc'' (OSError ''permission denied''))
             empty_world)"
    using multiple_files_outcome [where e = demo_env and w = empty_world and outputDir = "''out''"
        and tune = tune_B and err = "OSError ''permission denied''" and rest = "[tune_A]"
        and i = 0 and n = 0] h
    by (simp add: p)
  let ?w1 = "Printf (ErrorCreatingOutputFileAt ''out/2_B.abc'' (OSError ''permission denied''))
    empty_world"
  have pa: "filepathJoin demo_env ''out'' (abcFileName tune_A) = ''out/1_A.abc''"
    by (simp add: demo_env_def abcFileName_def tune_A_def sanitizeFileName_eq underscored_def)
  have ok: "osCreate demo_env ?w1 (filepathJoin demo_env ''out'' (abcFileName tune_A)) = None"
    by (simp add: pa) (simp add: demo_env_def)
  have ul: "unicodeLower demo_env = id" by (simp add: demo_env_def)
  have r: "outputToMultipleFiles demo_env [tune_B, tune_A] ''out'' empty_world =
      Printf (SuccessfullyWroteIndividual 1 ''out'')
        (?w1\<lparr>files := (files ?w1)(''out/1_A.abc'' \<mapsto> abcBlock id tune_A)\<rparr>)"
    unfolding outputToMultipleFiles_def s multiple_iteration_created [OF ok]
    by (simp add: pa ul)
  have c1: "stdout (outputToMultipleFiles demo_env [tune_B, tune_A] ''out'' empty_world)
     = [ErrorCreatingOutputFileAt ''out/2_B.abc'' (OSError ''permission denied''),
        SuccessfullyWroteIndividual 1 ''out'']"
    unfolding r by (simp add: Printf_def empty_world_def)
  have c2: "files (outputToMultipleFiles demo_env [tune_B, tune_A] ''out'' empty_world)
      ''out/2_B.abc'' = None"
    unfolding r by (simp add: Printf_def empty_world_def)
  have c3: "files (outputToMultipleFiles demo_env [tune_B, tune_A] ''out'' empty_world)
      ''out/1_A.abc'' = Some (abcBlock id tune_A)"
    unfolding r by (simp add: Printf_def empty_world_def)
  from h s c1 c2 c3 show ?thesis by (intro conjI)
qed

subsection \<open>Runs of the whole program\<close>

definition null_world :: world where
  "null_world = \<lparr>files = [''in.json'' \<mapsto> ''null''], stdout = [], stderr = []\<rparr>"

definition broken_world :: world where
  "broken_world =
     \<lparr>files = [''in.json'' \<mapsto> ''[{'', ''out/old.abc'' \<mapsto> ''X:9''], stdout = [], stderr = []\<rparr>"

definition single_flags :: flags where
  "single_flags = \<lparr>inputFile = ''in.json'', outputFlag = ''out'', singleFile = True,
     singleFilePath = ''all_tunes.abc''\<rparr>"

section \<open>Properties of the decoder\<close>

text \<open>
  The inputs the decoder accepts: the top-level value is an array or \<^verbatim>\<open>null\<close>, every
  element is an object or \<^verbatim>\<open>null\<close>, and every member that selects a field holds a string
  or \<^verbatim>\<open>null\<close>.
\<close>

fun memberOk :: "(string \<Rightarrow> string) \<Rightarrow> string \<times> json \<Rightarrow> bool" where
  "memberOk fn (key, v) = (findField fn key = None \<or> isString v \<or> isNull v)"

fun elementOk :: "(string \<Rightarrow> string) \<Rightarrow> json \<Rightarrow> bool" where
  "elementOk fn JNull = True"
| "elementOk fn (JObject kvs) = list_all (memberOk fn) kvs"
| "elementOk fn v = False"

fun inputOk :: "(string \<Rightarrow> string) \<Rightarrow> json \<Rightarrow> bool" where
  "inputOk fn JNull = True"
| "inputOk fn (JArray es) = list_all (elementOk fn) es"
| "inputOk fn v = False"

lemma storeString_None_iff: "fst (storeString v f t) = None \<longleftrightarrow> isString v \<or> isNull v"
  by (cases v) simp_all

lemma object_None_iff:
  "fst (object fn kvs (saved, t)) = None \<longleftrightarrow> saved = None \<and> list_all (memberOk fn) kvs"
proof (induction kvs arbitrary: saved t)
  case Nil
  then show ?case by simp
next
  case (Cons kv kvs)
  obtain k v where kv: "kv = (k, v)" by (cases kv)
  show ?case
  proof (cases "findField fn k")
    case None
    with Cons kv show ?thesis by simp
  next
    case (Some f)
    obtain err t' where st: "storeString v f t = (err, t')" by (cases "storeString v f t")
    then have "err = None \<longleftrightarrow> isString v \<or> isNull v"
      using storeString_None_iff [of v f t] by simp
    with Cons.IH [of "saveError saved err" t'] kv Some st show ?thesis
      by (auto simp: saveError_eq_None)
  qed
qed

lemma decodeTune_None_iff: "fst (decodeTune fn x) = None \<longleftrightarrow> elementOk fn x"
  by (cases x) (simp_all add: object_None_iff)

lemma array_None_iff:
  "fst (array fn es (saved, ts)) = None \<longleftrightarrow> saved = None \<and> list_all (elementOk fn) es"
proof (induction es arbitrary: saved ts)
  case Nil
  then show ?case by simp
next
  case (Cons x es)
  obtain err t where d: "decodeTune fn x = (err, t)" by (cases "decodeTune fn x")
  then have "err = None \<longleftrightarrow> elementOk fn x"
    using decodeTune_None_iff [of fn x] by simp
  with Cons.IH [of "saveError saved err" "ts @ [t]"] d show ?case
    by (auto simp: saveError_eq_None)
qed

lemma unmarshalValue_None_iff: "fst (unmarshalValue fn v) = None \<longleftrightarrow> inputOk fn v"
  by (cases v) (simp_all add: array_None_iff)

lemma main_decode_error:
  assumes "inputFile fl \<noteq> []" and "ioutilReadFile e w (inputFile fl) = Inr data"
    and "fst (Unmarshal (jsonSyntax e) (jsonFoldName e) data) = Some err"
  shows "main e fl w = (1, Printf (ErrorParsingJSON err) w)"
proof -
  obtain tunes where "Unmarshal (jsonSyntax e) (jsonFoldName e) data = (Some err, tunes)"
    using assms(3) by (cases "Unmarshal (jsonSyntax e) (jsonFoldName e) data") simp
  with assms(1,2) show ?thesis by (simp add: main_def)
qed

text \<open>
  C7, as amended. Decoding fails with a decode error on malformed syntax, on a top-level
  value that is neither an array nor \<^verbatim>\<open>null\<close>, on an array element that is neither an
  object nor \<^verbatim>\<open>null\<close>, and on a member for one of the fields whose value is neither a
  string nor \<^verbatim>\<open>null\<close>; a well-formed input fails in these cases only (\<open>inputOk\<close>).
  JSON \<^verbatim>\<open>null\<close> is accepted in the three places: at the top level it decodes to no tunes,
  as an element to a record of empty fields, and as a member it leaves the field as it
  is. When decoding fails the process prints the error and exits with status 1, and no
  file is written or changed; whatever the decoder had stored before the error is not
  used.
\<close>

theorem decode_failure_exits:
  "(jsonSyntax e data = None \<longrightarrow>
      fst (Unmarshal (jsonSyntax e) (jsonFoldName e) data) = Some SyntaxError) \<and>
   (\<not> isArray v \<and> \<not> isNull v \<longrightarrow> fst (unmarshalValue fn v) \<noteq> None) \<and>
   (x \<in> set es \<and> \<not> isObject x \<and> \<not> isNull x \<longrightarrow> fst (unmarshalValue fn (JArray es)) \<noteq> None) \<and>
   (JObject kvs \<in> set es \<and> (k, val) \<in> set kvs \<and> findField fn k = Some f \<and>
    \<not> isString val \<and> \<not> isNull val \<longrightarrow> fst (unmarshalValue fn (JArray es)) \<noteq> None) \<and>
   (fst (unmarshalValue fn v) = None) = inputOk fn v \<and>
   unmarshalValue fn JNull = (None, []) \<and>
   decodeTune fn JNull = (None, zeroTune) \<and>
   storeString JNull f t = (None, t) \<and>
   (inputFile fl \<noteq> [] \<and> ioutilReadFile e w (inputFile fl) = Inr data \<and>
    fst (Unmarshal (jsonSyntax e) (jsonFoldName e) data) = Some err \<longrightarrow>
      main e fl w = (1, Printf (ErrorParsingJSON err) w) \<and>
      files (snd (main e fl w)) = files w)"
proof (intro conjI impI)
  assume "jsonSyntax e data = None"
  then show "fst (Unmarshal (jsonSyntax e) (jsonFoldName e) data) = Some SyntaxError"
    by (simp add: Unmarshal_def)
next
  assume "\<not> isArray v \<and> \<not> isNull v"
  then show "fst (unmarshalValue fn v) \<noteq> None" by (cases v) simp_all
next
  assume a: "x \<in> set es \<and> \<not> isObject x \<and> \<not> isNull x"
  then have "fst (decodeTune fn x) \<noteq> None" by (simp add: decodeTune_bad_kind)
  with a show "fst (unmarshalValue fn (JArray es)) \<noteq> None"
    using array_bad_element [of x es fn None "[]"] by simp
next
  assume a: "JObject kvs \<in> set es \<and> (k, val) \<in> set kvs \<and> findField fn k = Some f \<and>
    \<not> isString val \<and> \<not> isNull val"
  then have "fst (decodeTune fn (JObject kvs)) \<noteq> None"
    using object_bad_member [of k val kvs fn f None zeroTune] by simp
  with a show "fst (unmarshalValue fn (JArray es)) \<noteq> None"
    using array_bad_element [of "JObject kvs" es fn None "[]"] by simp
next
  show "(fst (unmarshalValue fn v) = None) = inputOk fn v"
    by (rule unmarshalValue_None_iff)
next
  show "unmarshalValue fn JNull = (None, [])" by simp
next
  show "decodeTune fn JNull = (None, zeroTune)" by simp
next
  show "storeString JNull f t = (None, t)" by simp
next
  assume a: "inputFile fl \<noteq> [] \<and> ioutilReadFile e w (inputFile fl) = Inr data \<and>
    fst (Unmarshal (jsonSyntax e) (jsonFoldName e) data) = Some err"
  then show m: "main e fl w = (1, Printf (ErrorParsingJSON err) w)"
    by (simp add: main_decode_error)
  show "files (snd (main e fl w)) = files w"
    unfolding m by (simp add: Printf_def)
qed

text \<open>
  C7 at a malformed text, a top-level object, an array with a string element, a
  \<^verbatim>\<open>name\<close> member holding a number, an input with a \<^verbatim>\<open>null\<close> element, a \<^verbatim>\<open>null\<close> member
  and a number under an unknown key that is accepted, and at a run of the program on the
  malformed text.
\<close>

theorem decode_failure_exits_witness:
  "jsonSyntax demo_env ''[{'' = None \<and>
   fst (Unmarshal (jsonSyntax demo_env) (jsonFoldName demo_env) ''[{'') = Some SyntaxError \<and>
   (\<not> isArray (JObject []) \<and> \<not> isNull (JObject [])) \<and>
   fst (unmarshalValue (map lowerByte) (JObject [])) \<noteq> None \<and>
   (JString ''x'' \<in> set [JObject [], JString ''x''] \<and> \<not> isObject (JString ''x'') \<and>
    \<not> isNull (JString ''x'')) \<and>
   fst (unmarshalValue (map lowerByte) (JArray [JObject [], JString ''x''])) \<noteq> None \<and>
   (JObject [(''Name'', JNumber ''3'')] \<in> set [JObject [(''Name'', JNumber ''3'')]] \<and>
    (''Name'', JNumber ''3'') \<in> set [(''Name'', JNumber ''3'')] \<and>
    findField (map lowerByte) ''Name'' = Some FName \<and>
    \<not> isString (JNumber ''3'') \<and> \<not> isNull (JNumber ''3'')) \<and>
   fst (unmarshalValue (map lowerByte) (JArray [JObject [(''Name'', JNumber ''3'')]])) \<noteq> None \<and>
   inputOk (map lowerByte)
     (JArray [JNull, JObject [(''name'', JNull), (''abc'', JString ''|:A:|''), (''id'', JNumber ''7'')]]) \<and>
   fst (unmarshalValue (map lowerByte)
     (JArray [JNull, JObject [(''name'', JNull), (''abc'', JString ''|:A:|''), (''id'', JNumber ''7'')]]))
     = None \<and>
   (inputFile single_flags \<noteq> [] \<and>
    ioutilReadFile demo_env broken_world (inputFile single_flags) = Inr ''[{'') \<and>
   main demo_env single_flags broken_world
     = (1, Printf (ErrorParsingJSON SyntaxError) broken_world) \<and>
   files (snd (main demo_env single_flags broken_world)) = files broken_world"
proof -
  have h1: "jsonSyntax demo_env ''[{'' = None" by (simp add: demo_env_def)
  have h2: "\<not> isArray (JObject []) \<and> \<not> isNull (JObject [])" by simp
  have h3: "JString ''x'' \<in> set [JObject [], JString ''x''] \<and> \<not> isObject (JString ''x'') \<and>
    \<not> isNull (JString ''x'')" by simp
  have h4: "JObject [(''Name'', JNumber ''3'')] \<in> set [JObject [(''Name'', JNumber ''3'')]] \<and>
    (''Name'', JNumber ''3'') \<in> set [(''Name'', JNumber ''3'')] \<and>
    findField (map lowerByte) ''Name'' = Some FName \<and>
    \<not> isString (JNumber ''3'') \<and> \<not> isNull (JNumber ''3'')"
    by (simp add: findField_def allFields_def lowerByte_def byte_def char_of_def bit_Suc_0_iff)
  have h5: "inputFile single_flags \<noteq> [] \<and>
    ioutilReadFile demo_env broken_world (inputFile single_flags) = Inr ''[{''"
    by (simp add: single_flags_def demo_env_def broken_world_def)
  have h6: "inputOk (map lowerByte)
     (JArray [JNull, JObject [(''name'', JNull), (''abc'', JString ''|:A:|''), (''id'', JNumber ''7'')]])"
    by (simp add: findField_def allFields_def lowerByte_def byte_def char_of_def bit_Suc_0_iff)
  note t = decode_failure_exits [where e = demo_env and data = "''[{''" and fn = "map lowerByte"
      and x = "JString ''x''" and fl = single_flags and w = broken_world
      and err = SyntaxError]
  have c1: "fst (Unmarshal (jsonSyntax demo_env) (jsonFoldName demo_env) ''[{'') = Some SyntaxError"
    using t h1 by blast
  have c2: "fst (unmarshalValue (map lowerByte) (JObject [])) \<noteq> None"
    using t [where v = "JObject []"] h2 by blast
  have c3: "fst (unmarshalValue (map lowerByte) (JArray [JObject [], JString ''x''])) \<noteq> None"
    using t [where es = "[JObject [], JString ''x'']"] h3 by blast
  have c4: "fst (unmarshalValue (map lowerByte) (JArray [JObject [(''Name'', JNumber ''3'')]])) \<noteq> None"
    using t [where es = "[JObject [(''Name'', JNumber ''3'')]]" and kvs = "[(''Name'', JNumber ''3'')]"
        and k = "''Name''" and val = "JNumber ''3''" and f = FName] h4 by blast
  have c5: "main demo_env single_flags broken_world
       = (1, Printf (ErrorParsingJSON SyntaxError) broken_world) \<and>
     files (snd (main demo_env single_flags broken_world)) = files broken_world"
    using t h5 c1 by blast
  have c6: "fst (unmarshalValue (map lowerByte)
     (JArray [JNull, JObject [(''name'', JNull), (''abc'', JString ''|:A:|''), (''id'', JNumber ''7'')]]))
     = None"
    using t [where v = "JArray [JNull, JObject [(''name'', JNull), (''abc'', JString ''|:A:|''),
      (''id'', JNumber ''7'')]]"] h6 by blast
  from h1 c1 h2 c2 h3 c3 h4 c4 h6 c6 h5 c5 show ?thesis by blast
qed

text \<open>
  C7 as stated lets every input that is not an array of objects with string fields
  fail. The input \<^verbatim>\<open>null\<close> is not an array, yet it decodes without an error into no tunes
  (\<^verbatim>\<open>encoding/json\<close> sets the slice to nil): the run in single-file mode exits with status
  0 and creates the output file. In the same way an element \<^verbatim>\<open>null\<close> is not an object and
  a member \<^verbatim>\<open>null\<close> is not a string, and both decode without an error into a record of
  empty fields.
\<close>

theorem null_input_counterexample:
  "\<not> isArray JNull \<and>
   jsonSyntax demo_env ''null'' = Some JNull \<and>
   Unmarshal (jsonSyntax demo_env) (jsonFoldName demo_env) ''null'' = (None, []) \<and>
   fst (main demo_env single_flags null_world) = 0 \<and>
   files (snd (main demo_env single_flags null_world)) ''out/all_tunes.abc'' = Some [] \<and>
   files null_world ''out/all_tunes.abc'' = None \<and>
   \<not> isObject JNull \<and>
   unmarshalValue (map lowerByte) (JArray [JNull]) = (None, [zeroTune]) \<and>
   \<not> isString JNull \<and>
   findField (map lowerByte) ''name'' = Some FName \<and>
   unmarshalValue (map lowerByte) (JArray [JObject [(''name'', JNull)]]) = (None, [zeroTune])"
proof -
  have u: "Unmarshal (jsonSyntax demo_env) (jsonFoldName demo_env) ''null'' = (None, [])"
    by (simp add: Unmarshal_def demo_env_def)
  have r: "ioutilReadFile demo_env null_world (inputFile single_flags) = Inr ''null''"
    by (simp add: demo_env_def null_world_def single_flags_def)
  have m: "main demo_env single_flags null_world =
      (0, Printf (SuccessfullyWroteTo 0 ''out/all_tunes.abc'')
            (created ''out/all_tunes.abc'' (Printf (FoundTunes 0) null_world)))"
    by (simp add: main_def r u outputToSingleFile_def Let_def)
      (simp add: demo_env_def single_flags_def)
  have f: "findField (map lowerByte) ''name'' = Some FName"
    by (simp add: findField_def allFields_def)
  have a: "unmarshalValue (map lowerByte) (JArray [JNull]) = (None, [zeroTune])" by simp
  have b: "unmarshalValue (map lowerByte) (JArray [JObject [(''name'', JNull)]])
      = (None, [zeroTune])"
    by (simp add: f)
  have top: "\<not> isArray JNull \<and>
   jsonSyntax demo_env ''null'' = Some JNull \<and>
   Unmarshal (jsonSyntax demo_env) (jsonFoldName demo_env) ''null'' = (None, []) \<and>
   fst (main demo_env single_flags null_world) = 0 \<and>
   files (snd (main demo_env single_flags null_world)) ''out/all_tunes.abc'' = Some [] \<and>
   files null_world ''out/all_tunes.abc'' = None"
    unfolding m by (simp add: u Printf_def created_def null_world_def) (simp add: demo_env_def)
  have k: "\<not> isObject JNull \<and> \<not> isString JNull" by simp
  from top a b f k show ?thesis by blast
qed

lemma list_all_stringObject:
  "list_all stringObject es \<Longrightarrow> list_all (\<lambda>x. fst (decodeTune fn x) = None) es"
  by (induction es) (simp_all add: decodeTune_stringObject)

text \<open>
  C9. A field for which an object has no member is decoded as the empty string; an array
  whose elements are objects with string members only, whichever fields they leave out,
  decodes without an error into one record for each element; so an array of empty
  objects decodes into records whose fields are all empty strings.
\<close>

theorem omitted_fields_decode_empty:
  "(list_all (\<lambda>kv. findField fn (fst kv) \<noteq> Some f) kvs \<longrightarrow>
      getField f (snd (decodeTune fn (JObject kvs))) = []) \<and>
   (list_all stringObject es \<longrightarrow>
      fst (unmarshalValue fn (JArray es)) = None \<and>
      length (snd (unmarshalValue fn (JArray es))) = length es) \<and>
   unmarshalValue fn (JArray (replicate n (JObject []))) = (None, replicate n zeroTune) \<and>
   getField f zeroTune = []"
proof (intro conjI impI)
  assume "list_all (\<lambda>kv. findField fn (fst kv) \<noteq> Some f) kvs"
  then show "getField f (snd (decodeTune fn (JObject kvs))) = []"
    by (simp add: object_omitted getField_zeroTune)
next
  assume a: "list_all stringObject es"
  then have "list_all (\<lambda>x. fst (decodeTune fn x) = None) es"
    by (rule list_all_stringObject)
  then have "array fn es (None, []) = (None, [] @ map (\<lambda>x. snd (decodeTune fn x)) es)"
    by (rule array_ok)
  then have r: "unmarshalValue fn (JArray es) = (None, map (\<lambda>x. snd (decodeTune fn x)) es)"
    by simp
  show "fst (unmarshalValue fn (JArray es)) = None" unfolding r by simp
  show "length (snd (unmarshalValue fn (JArray es))) = length es" unfolding r by simp
next
  have "list_all (\<lambda>x. fst (decodeTune fn x) = None) (replicate n (JObject []))"
    by (induction n) simp_all
  from array_ok [OF this, of None "[]"]
  show "unmarshalValue fn (JArray (replicate n (JObject []))) = (None, replicate n zeroTune)"
    by (simp add: map_replicate)
next
  show "getField f zeroTune = []" by (rule getField_zeroTune)
qed

text \<open>
  C9 at an object with a \<^verbatim>\<open>name\<close> member only, and at the text \<^verbatim>\<open>[{},{}]\<close>.
\<close>

theorem omitted_fields_decode_empty_witness:
  "list_all (\<lambda>kv. findField (map lowerByte) (fst kv) \<noteq> Some FTuneID) [(''name'', JString ''A'')] \<and>
   getField FTuneID (snd (decodeTune (map lowerByte) (JObject [(''name'', JString ''A'')]))) = [] \<and>
   list_all stringObject [JObject [(''name'', JString ''A'')], JObject []] \<and>
   fst (unmarshalValue (map lowerByte) (JArray [JObject [(''name'', JString ''A'')], JObject []]))
     = None \<and>
   length (snd (unmarshalValue (map lowerByte)
     (JArray [JObject [(''name'', JString ''A'')], JObject []]))) = 2 \<and>
   Unmarshal (jsonSyntax demo_env) (jsonFoldName demo_env) ''[{},{}]'' = (None, [zeroTune, zeroTune])"
proof -
  have h1: "list_all (\<lambda>kv. findField (map lowerByte) (fst kv) \<noteq> Some FTuneID)
      [(''name'', JString ''A'')]"
    by (simp add: findField_def allFields_def)
  have h2: "list_all stringObject [JObject [(''name'', JString ''A'')], JObject []]" by simp
  note t = omitted_fields_decode_empty [where fn = "map lowerByte" and f = FTuneID
      and kvs = "[(''name'', JString ''A'')]"
      and es = "[JObject [(''name'', JString ''A'')], JObject []]" and n = 2]
  have c1: "getField FTuneID (snd (decodeTune (map lowerByte) (JObject [(''name'', JString ''A'')])))
      = []"
    using t h1 by blast
  have c2: "fst (unmarshalValue (map lowerByte)
      (JArray [JObject [(''name'', JString ''A'')], JObject []])) = None"
    using t h2 by blast
  have "length (snd (unmarshalValue (map lowerByte)
      (JArray [JObject [(''name'', JString ''A'')], JObject []])))
      = length [JObject [(''name'', JString ''A'')], JObject []]"
    using t h2 by blast
  then have c3: "length (snd (unmarshalValue (map lowerByte)
      (JArray [JObject [(''name'', JString ''A'')], JObject []]))) = 2"
    by simp
  have "unmarshalValue (map lowerByte) (JArray (replicate 2 (JObject [])))
      = (None, replicate 2 zeroTune)"
    using t by blast
  then have c4: "Unmarshal (jsonSyntax demo_env) (jsonFoldName demo_env) ''[{},{}]''
      = (None, [zeroTune, zeroTune])"
    by (simp add: Unmarshal_def demo_env_def numeral_2_eq_2)
  from h1 c1 h2 c2 c3 c4 show ?thesis by blast
qed

end
